theory Spec2Isabelle
  imports Main
begin

section \<open>The instance trackers of packages/apputils/src/instancetracker.ts\<close>

text \<open>
  The file holds two classes, \<^verbatim>\<open>InstanceTracker\<close> (any observable disposable object)
  and \<^verbatim>\<open>WidgetTracker\<close> (widgets, with a phosphor \<^verbatim>\<open>FocusTracker\<close> inside). Both are
  modelled by explicit state passing. The state of a tracker is a record of its private
  fields, together with the part of the world its methods read and write:
  the two attached properties of \<^verbatim>\<open>namespace Private\<close>, the \<^verbatim>\<open>isDisposed\<close> flag of the tracked
  objects, the state database the restore options point to, and logs of the calls and
  signal emissions the methods make, in program order.

  An \<^verbatim>\<open>async\<close> method runs synchronously up to its first \<^verbatim>\<open>await\<close>. Where a claim
  depends on that boundary the method is split into the part before the \<^verbatim>\<open>await\<close>
  (\<open>_begin\<close>) and the continuation; the method run to completion is their composition.
  The collaborators (state database, command registry, readiness promises) are taken
  to settle: a database call succeeds, a command either resolves or rejects.
\<close>

subsection \<open>Values\<close>

text \<open>Objects are compared by reference (\<^verbatim>\<open>===\<close>, \<^verbatim>\<open>Set.has\<close>): an object is its identity.\<close>

type_synonym obj = nat

text \<open>
  JSON values as the state database returns them. A number only matters here through its
  truthiness, so it is an integer. A JavaScript value that may be \<^verbatim>\<open>undefined\<close> is an
  option, \<open>None\<close> being \<^verbatim>\<open>undefined\<close>.
\<close>

datatype json =
    JNull
  | JBool bool
  | JNum int
  | JStr string
  | JArr "json list"
  | JObj "(string \<times> json) list"

type_synonym jsval = "json option"

datatype error =
    DisposedObject   \<comment> \<open>\<^verbatim>\<open>'A disposed object cannot be added.'\<close>\<close>
  | AlreadyExists    \<comment> \<open>\<^verbatim>\<open>'This object already exists in the tracker.'\<close>\<close>
  | AlreadyRestored  \<comment> \<open>\<^verbatim>\<open>'Instance tracker has already restored'\<close>\<close>

text \<open>
  How far a call of an \<^verbatim>\<open>async\<close> method has come: it threw (the promise is rejected),
  it is suspended at an \<^verbatim>\<open>await\<close>, or it returned.
\<close>

datatype progress = Thrown error | Suspended | Returned

datatype db_call = DbList string | DbSave string json | DbRemove string

datatype signal = Added obj | CurrentChanged "obj option" | Updated obj

text \<open>
  \<^verbatim>\<open>InstanceTracker.IRestoreOptions\<close>. \<open>registry\<close> is \<^verbatim>\<open>registry.execute\<close>: the promise
  it returns rejects (\<open>Inl\<close>) or resolves with a value (\<open>Inr\<close>). The \<^verbatim>\<open>state\<close> handle
  is the database of the tracker state below; \<^verbatim>\<open>when\<close> is awaited together with the listing.
\<close>

record options =
  command :: string
  args :: "obj \<Rightarrow> json"
  name :: "obj \<Rightarrow> string"
  registry :: "string \<Rightarrow> json \<Rightarrow> string + jsval"

subsection \<open>Tracker state\<close>

text \<open>
  The fields the two classes share. \<open>restoreOpts\<close> is \<^verbatim>\<open>_restore\<close>; \<open>restored\<close> counts the
  calls of \<^verbatim>\<open>_restored.resolve\<close>; \<open>injectedProperty\<close> and \<open>nameProperty\<close> are the attached
  properties with their defaults \<^verbatim>\<open>false\<close> and \<^verbatim>\<open>''\<close>; \<open>slots\<close> holds the objects whose
  \<^verbatim>\<open>disposed\<close> signal is connected to the tracker's handler; \<open>db\<close> is the content of the
  state database and \<open>db_calls\<close> the calls made on it; \<open>executed\<close> lists the calls of
  \<^verbatim>\<open>registry.execute\<close>; \<open>emitted\<close> lists the signals emitted.
\<close>

record tracker_base =
  namespace :: string
  hasRestored :: bool
  restoreOpts :: "options option"
  restored :: nat
  injectedProperty :: "obj \<Rightarrow> bool"
  nameProperty :: "obj \<Rightarrow> string"
  isDisposed :: "obj \<Rightarrow> bool"
  slots :: "obj set"
  db :: "string \<rightharpoonup> json"
  db_calls :: "db_call list"
  executed :: "(string \<times> json) list"
  emitted :: "signal list"

text \<open>\<^verbatim>\<open>InstanceTracker\<close>: \<^verbatim>\<open>_instances\<close> is a \<^verbatim>\<open>Set\<close>, kept in insertion order.\<close>

record instance_tracker = tracker_base +
  instances :: "obj list"
  current :: "obj option"

text \<open>
  \<^verbatim>\<open>WidgetTracker\<close>: \<open>tracker_widgets\<close> and \<open>tracker_currentWidget\<close> are what the inner
  \<^verbatim>\<open>FocusTracker\<close> reports as \<^verbatim>\<open>_tracker.widgets\<close> and \<^verbatim>\<open>_tracker.currentWidget\<close>.
\<close>

record widget_tracker = tracker_base +
  tracker_widgets :: "obj list"
  tracker_currentWidget :: "obj option"
  widgets :: "obj list"
  currentWidget :: "obj option"

subsection \<open>Collaborators\<close>

text \<open>\<^verbatim>\<open>state.save(name, { data })\<close>, \<^verbatim>\<open>state.remove(id)\<close> and \<^verbatim>\<open>signal.emit(x)\<close>.\<close>

definition db_save :: "'a tracker_base_scheme \<Rightarrow> string \<Rightarrow> json \<Rightarrow> 'a tracker_base_scheme" where
  "db_save s k data =
     s\<lparr>db := (db s)(k \<mapsto> JObj [(''data'', data)]),
       db_calls := db_calls s @ [DbSave k (JObj [(''data'', data)])]\<rparr>"

definition db_remove :: "'a tracker_base_scheme \<Rightarrow> string \<Rightarrow> 'a tracker_base_scheme" where
  "db_remove s k = s\<lparr>db := (db s)(k := None), db_calls := db_calls s @ [DbRemove k]\<rparr>"

definition emit :: "'a tracker_base_scheme \<Rightarrow> signal \<Rightarrow> 'a tracker_base_scheme" where
  "emit s x = s\<lparr>emitted := emitted s @ [x]\<rparr>"

subsection \<open>InstanceTracker\<close>

definition has :: "instance_tracker \<Rightarrow> obj \<Rightarrow> bool" where
  "has s obj = (obj \<in> set (instances s))"

definition tracker_size :: "instance_tracker \<Rightarrow> nat" where
  "tracker_size s = length (instances s)"

text \<open>The setter of \<^verbatim>\<open>current\<close>; the hook \<^verbatim>\<open>onCurrentChanged\<close> is a no-op.\<close>

definition set_current :: "instance_tracker \<Rightarrow> obj \<Rightarrow> instance_tracker" where
  "set_current s obj =
     (if current s = Some obj then s
      else emit (s\<lparr>current := Some obj\<rparr>) (CurrentChanged (Some obj)))"

text \<open>Lines 232 to 238 of \<^verbatim>\<open>add\<close>: what follows the restoration block.\<close>

definition add_tail :: "instance_tracker \<Rightarrow> obj \<Rightarrow> instance_tracker" where
  "add_tail s obj =
     (let s1 = (if current s = None then set_current s obj else s)
      in emit s1 (Added obj))"

text \<open>
  \<^verbatim>\<open>add\<close> up to its only \<^verbatim>\<open>await\<close> (line 228), or to its end when that line is not
  reached.
\<close>

definition add_begin :: "instance_tracker \<Rightarrow> obj \<Rightarrow> progress \<times> instance_tracker" where
  "add_begin s obj =
     (if isDisposed s obj then (Thrown DisposedObject, s)
      else if obj \<in> set (instances s) then (Thrown AlreadyExists, s)
      else
        let s1 = s\<lparr>instances := instances s @ [obj]\<rparr> in
        if injectedProperty s1 obj then (Returned, s1)
        else
          let s2 = s1\<lparr>slots := insert obj (slots s1)\<rparr> in
          case restoreOpts s2 of
            None \<Rightarrow> (Returned, add_tail s2 obj)
          | Some r \<Rightarrow>
              let objName = name r obj in
              if objName \<noteq> [] then
                let nm = namespace s2 @ '':'' @ objName;
                    data = args r obj;
                    s3 = s2\<lparr>nameProperty := (nameProperty s2)(obj := nm)\<rparr>
                in (Suspended, db_save s3 nm data)
              else (Returned, add_tail s2 obj))"

text \<open>\<^verbatim>\<open>add\<close> run to completion: the continuation runs once the write has landed.\<close>

definition add :: "instance_tracker \<Rightarrow> obj \<Rightarrow> progress \<times> instance_tracker" where
  "add s obj =
     (case add_begin s obj of
        (Suspended, s1) \<Rightarrow> (Returned, add_tail s1 obj)
      | r \<Rightarrow> r)"

definition inject :: "instance_tracker \<Rightarrow> obj \<Rightarrow> progress \<times> instance_tracker" where
  "inject s obj = add (s\<lparr>injectedProperty := (injectedProperty s)(obj := True)\<rparr>) obj"

text \<open>
  \<^verbatim>\<open>save\<close>, run to completion. Its two \<^verbatim>\<open>await\<close>s follow the two database calls, which
  are issued in program order.
\<close>

definition save :: "instance_tracker \<Rightarrow> obj \<Rightarrow> instance_tracker" where
  "save s obj =
     (case restoreOpts s of
        None \<Rightarrow> s
      | Some r \<Rightarrow>
          if \<not> has s obj \<or> injectedProperty s obj then s
          else
            let objName = name r obj;
                oldName = nameProperty s obj;
                newName = (if objName \<noteq> [] then namespace s @ '':'' @ objName else []);
                s1 = (if oldName \<noteq> [] \<and> oldName \<noteq> newName then db_remove s oldName else s);
                s2 = s1\<lparr>nameProperty := (nameProperty s1)(obj := newName)\<rparr>;
                s3 = (if newName \<noteq> [] then db_save s2 newName (args r obj) else s2)
            in if oldName \<noteq> newName then emit s3 (Updated obj) else s3)"

text \<open>\<^verbatim>\<open>_onInstanceDisposed\<close>, the slot connected to an object's \<^verbatim>\<open>disposed\<close> signal.\<close>

definition onInstanceDisposed :: "instance_tracker \<Rightarrow> obj \<Rightarrow> instance_tracker" where
  "onInstanceDisposed s obj =
     (let s1 = s\<lparr>instances := removeAll obj (instances s)\<rparr> in
      if injectedProperty s1 obj then s1
      else
        let s2 = (if current s1 = Some obj
                  then emit (s1\<lparr>current := None\<rparr>) (CurrentChanged None)
                  else s1)
        in case restoreOpts s2 of
             None \<Rightarrow> s2
           | Some r \<Rightarrow>
               let nm = nameProperty s2 obj in
               if nm \<noteq> [] then db_remove s2 nm else s2)"

text \<open>
  The object's side of \<^verbatim>\<open>IObservableDisposable\<close>: disposing an object sets its
  \<^verbatim>\<open>isDisposed\<close> flag and emits \<^verbatim>\<open>disposed\<close>, once; the tracker's slot runs when it is
  connected.
\<close>

definition dispose_obj :: "instance_tracker \<Rightarrow> obj \<Rightarrow> instance_tracker" where
  "dispose_obj s obj =
     (if isDisposed s obj then s
      else
        let s1 = s\<lparr>isDisposed := (isDisposed s)(obj := True)\<rparr> in
        if obj \<in> slots s1 then onInstanceDisposed s1 obj else s1)"

subsection \<open>restore, the same code in both classes\<close>

text \<open>
  Lines 350 to 360 and 751 to 759: the function mapped over \<^verbatim>\<open>saved.ids\<close>.
  \<^verbatim>\<open>value && (value as any).data\<close> is \<^verbatim>\<open>value\<close> itself when \<^verbatim>\<open>value\<close> is falsy
  (\<^verbatim>\<open>undefined\<close>, \<^verbatim>\<open>null\<close>, \<^verbatim>\<open>false\<close>, \<^verbatim>\<open>0\<close>, \<^verbatim>\<open>''\<close>), and its property \<^verbatim>\<open>data\<close> otherwise,
  which is \<^verbatim>\<open>undefined\<close> on a primitive, on an array and on an object without that key.
\<close>

fun args_of_value :: "jsval \<Rightarrow> jsval" where
  "args_of_value None = None"
| "args_of_value (Some JNull) = Some JNull"
| "args_of_value (Some (JBool b)) = (if b then None else Some (JBool False))"
| "args_of_value (Some (JNum n)) = (if n = 0 then Some (JNum 0) else None)"
| "args_of_value (Some (JStr t)) = (if t = [] then Some (JStr []) else None)"
| "args_of_value (Some (JArr xs)) = None"
| "args_of_value (Some (JObj kvs)) = map_of kvs ''data''"

text \<open>\<^verbatim>\<open>saved.values[index]\<close>: reading past the end of an array gives \<^verbatim>\<open>undefined\<close>.\<close>

definition value_at :: "jsval list \<Rightarrow> nat \<Rightarrow> jsval" where
  "value_at vs index = (if index < length vs then vs ! index else None)"

text \<open>The listing \<^verbatim>\<open>{ ids, values }\<close> is a pair; each id goes with the value at its index.\<close>

definition saved_records :: "string list \<times> jsval list \<Rightarrow> (string \<times> jsval) list" where
  "saved_records saved =
     map (\<lambda>index. (fst saved ! index, value_at (snd saved) index)) [0..<length (fst saved)]"

text \<open>
  The promise the mapped function returns for one record: that of \<^verbatim>\<open>state.remove(id)\<close>,
  or that of \<^verbatim>\<open>registry.execute(command, args)\<close> with its \<^verbatim>\<open>catch\<close> handler attached.
\<close>

datatype pending = Removing | Executing "string + jsval"

definition replay ::
  "options \<Rightarrow> 'a tracker_base_scheme \<Rightarrow> string \<times> jsval \<Rightarrow> pending \<times> 'a tracker_base_scheme" where
  "replay opts s r =
     (case args_of_value (snd r) of
        None \<Rightarrow> (Removing, db_remove s (fst r))
      | Some a \<Rightarrow>
          (Executing (registry opts (command opts) a),
           s\<lparr>executed := executed s @ [(command opts, a)]\<rparr>))"

text \<open>The synchronous \<^verbatim>\<open>map\<close>: every record in listing order.\<close>

fun replay_all ::
  "options \<Rightarrow> 'a tracker_base_scheme \<Rightarrow> (string \<times> jsval) list
     \<Rightarrow> pending list \<times> 'a tracker_base_scheme" where
  "replay_all opts s [] = ([], s)"
| "replay_all opts s (r # rs) =
     (let (p, s1) = replay opts s r;
          (ps, s2) = replay_all opts s1 rs
      in (p # ps, s2))"

text \<open>
  The \<^verbatim>\<open>catch\<close> handlers run after the synchronous pass, when the promises settle
  (taken in listing order): a rejected execution removes its record.
\<close>

fun settle :: "'a tracker_base_scheme \<Rightarrow> (string \<times> pending) list \<Rightarrow> 'a tracker_base_scheme" where
  "settle s [] = s"
| "settle s ((key, p) # rest) =
     settle (case p of Executing (Inl e) \<Rightarrow> db_remove s key | _ \<Rightarrow> s) rest"

text \<open>What each promise resolves with; \<^verbatim>\<open>state.remove\<close> resolves with \<^verbatim>\<open>undefined\<close>.\<close>

fun outcome :: "pending \<Rightarrow> jsval" where
  "outcome Removing = None"
| "outcome (Executing (Inl e)) = None"
| "outcome (Executing (Inr v)) = v"

text \<open>\<^verbatim>\<open>restore\<close> up to its first \<^verbatim>\<open>await\<close> (lines 334 to 348, 737 to 749).\<close>

definition restore_begin ::
  "'a tracker_base_scheme \<Rightarrow> options \<Rightarrow> progress \<times> 'a tracker_base_scheme" where
  "restore_begin s opts =
     (if hasRestored s then (Thrown AlreadyRestored, s)
      else
        let s1 = s\<lparr>hasRestored := True\<rparr>;
            s2 = s1\<lparr>db_calls := db_calls s1 @ [DbList (namespace s1)]\<rparr>;
            s3 = s2\<lparr>restoreOpts := Some opts\<rparr>
        in (Suspended, s3))"

text \<open>
  The continuation, once the listing \<open>saved\<close> and the \<^verbatim>\<open>when\<close> promises are there. It
  uses the destructured \<^verbatim>\<open>options\<close>, not \<^verbatim>\<open>this._restore\<close>.
\<close>

definition restore_resume ::
  "'a tracker_base_scheme \<Rightarrow> options \<Rightarrow> string list \<times> jsval list
     \<Rightarrow> jsval list \<times> 'a tracker_base_scheme" where
  "restore_resume s opts saved =
     (let recs = saved_records saved;
          (ps, s1) = replay_all opts s recs;
          s2 = settle s1 (zip (map fst recs) ps)
      in (map outcome ps, s2\<lparr>restored := restored s2 + 1\<rparr>))"

definition restore ::
  "'a tracker_base_scheme \<Rightarrow> options \<Rightarrow> string list \<times> jsval list
     \<Rightarrow> (error + jsval list) \<times> 'a tracker_base_scheme" where
  "restore s opts saved =
     (case restore_begin s opts of
        (Thrown e, s1) \<Rightarrow> (Inl e, s1)
      | (_, s1) \<Rightarrow> (let (vs, s2) = restore_resume s1 opts saved in (Inr vs, s2)))"

text \<open>A run of \<^verbatim>\<open>restore\<close> calls on one tracker, each to completion.\<close>

fun restore_calls ::
  "'a tracker_base_scheme \<Rightarrow> (options \<times> (string list \<times> jsval list)) list
     \<Rightarrow> (error + jsval list) list \<times> 'a tracker_base_scheme" where
  "restore_calls s [] = ([], s)"
| "restore_calls s ((opts, saved) # cs) =
     (let (r, s1) = restore s opts saved;
          (rs, s2) = restore_calls s1 cs
      in (r # rs, s2))"

subsection \<open>WidgetTracker\<close>

definition w_has :: "widget_tracker \<Rightarrow> obj \<Rightarrow> bool" where
  "w_has s widget = (widget \<in> set (tracker_widgets s))"

definition w_size :: "widget_tracker \<Rightarrow> nat" where
  "w_size s = length (tracker_widgets s)"

text \<open>
  \<^verbatim>\<open>add\<close> is not \<^verbatim>\<open>async\<close> here: it runs to its end and returns a promise, which is
  rejected (\<open>Thrown\<close>), already resolved (\<open>Returned\<close>) or the pending promise of
  \<^verbatim>\<open>state.save\<close> (\<open>Suspended\<close>). \<^verbatim>\<open>_tracker.add(widget)\<close> appends the widget to the focus
  tracker's list; the widget is taken not to hold the focus at that moment.
\<close>

definition w_add :: "widget_tracker \<Rightarrow> obj \<Rightarrow> progress \<times> widget_tracker" where
  "w_add s widget =
     (if isDisposed s widget then (Thrown DisposedObject, s)
      else if w_has s widget then (Thrown AlreadyExists, s)
      else
        let s1 = s\<lparr>tracker_widgets := tracker_widgets s @ [widget]\<rparr>;
            s2 = s1\<lparr>widgets := widgets s1 @ [widget]\<rparr>
        in
        if injectedProperty s2 widget then (Returned, s2)
        else
          let s3 = s2\<lparr>slots := insert widget (slots s2)\<rparr>;
              (promise, s4) =
                (case restoreOpts s3 of
                   None \<Rightarrow> (Returned, s3)
                 | Some r \<Rightarrow>
                     let widgetName = name r widget in
                     if widgetName \<noteq> [] then
                       let nm = namespace s3 @ '':'' @ widgetName;
                           data = args r widget;
                           s3a = s3\<lparr>nameProperty := (nameProperty s3)(widget := nm)\<rparr>
                       in (Suspended, db_save s3a nm data)
                     else (Returned, s3));
              s5 = (if tracker_currentWidget s4 = None
                    then emit (s4\<lparr>currentWidget := Some widget\<rparr>) (CurrentChanged (Some widget))
                    else s4)
          in (promise, emit s5 (Added widget)))"

definition w_inject :: "widget_tracker \<Rightarrow> obj \<Rightarrow> widget_tracker" where
  "w_inject s widget =
     snd (w_add (s\<lparr>injectedProperty := (injectedProperty s)(widget := True)\<rparr>) widget)"

definition w_save :: "widget_tracker \<Rightarrow> obj \<Rightarrow> widget_tracker" where
  "w_save s widget =
     (case restoreOpts s of
        None \<Rightarrow> s
      | Some r \<Rightarrow>
          if \<not> w_has s widget \<or> injectedProperty s widget then s
          else
            let widgetName = name r widget;
                oldName = nameProperty s widget;
                newName = (if widgetName \<noteq> [] then namespace s @ '':'' @ widgetName else []);
                s1 = (if oldName \<noteq> [] \<and> oldName \<noteq> newName then db_remove s oldName else s);
                s2 = s1\<lparr>nameProperty := (nameProperty s1)(widget := newName)\<rparr>;
                s3 = (if newName \<noteq> [] then db_save s2 newName (args r widget) else s2)
            in if oldName \<noteq> newName then emit s3 (Updated widget) else s3)"

text \<open>\<^verbatim>\<open>_onCurrentChanged\<close>, the slot of the focus tracker's \<^verbatim>\<open>currentChanged\<close>.\<close>

definition w_onCurrentChanged :: "widget_tracker \<Rightarrow> obj option \<Rightarrow> widget_tracker" where
  "w_onCurrentChanged s newValue =
     (if newValue = currentWidget s then s
      else emit (s\<lparr>currentWidget := newValue\<rparr>) (CurrentChanged newValue))"

text \<open>
  \<^verbatim>\<open>_onWidgetDisposed\<close>. \<^verbatim>\<open>this._widgets[this._widgets.length - 1]\<close> is \<^verbatim>\<open>undefined\<close> on the
  empty array, so the chain of \<^verbatim>\<open>||\<close> ends in \<^verbatim>\<open>null\<close>.
\<close>

definition w_onWidgetDisposed :: "widget_tracker \<Rightarrow> obj \<Rightarrow> widget_tracker" where
  "w_onWidgetDisposed s widget =
     (if injectedProperty s widget then s
      else
        let s1 = s\<lparr>widgets := remove1 widget (widgets s)\<rparr>;
            s2 = (if currentWidget s1 = Some widget then
                    let c = (case tracker_currentWidget s1 of
                               Some focused \<Rightarrow> Some focused
                             | None \<Rightarrow> (if widgets s1 = [] then None
                                        else Some (last (widgets s1))))
                    in emit (s1\<lparr>currentWidget := c\<rparr>) (CurrentChanged c)
                  else s1)
        in case restoreOpts s2 of
             None \<Rightarrow> s2
           | Some r \<Rightarrow>
               let nm = nameProperty s2 widget in
               if nm \<noteq> [] then db_remove s2 nm else s2)"

subsection \<open>Disposal of a widget and focus changes\<close>

text \<open>
  Modelled from the spec: the focus-order source of section 6, which "exposes current
  changed events". It is phosphor's \<^verbatim>\<open>FocusTracker\<close>, whose source is not among the
  repository's files. A widget it tracks that takes the focus becomes its current widget,
  and the change is emitted to \<^verbatim>\<open>_onCurrentChanged\<close>, connected in the constructor
  (line 524).
\<close>

definition w_focus :: "widget_tracker \<Rightarrow> obj \<Rightarrow> widget_tracker" where
  "w_focus s widget =
     (if widget \<in> set (tracker_widgets s) \<and> tracker_currentWidget s \<noteq> Some widget
      then w_onCurrentChanged (s\<lparr>tracker_currentWidget := Some widget\<rparr>) (Some widget)
      else s)"

text \<open>
  Modelled from the spec: the same focus-order source, when a widget is disposed. The
  widget sets its \<^verbatim>\<open>isDisposed\<close> flag and emits \<^verbatim>\<open>disposed\<close>, once. Slots run in the
  order of their connection: first the focus tracker's, connected inside
  \<^verbatim>\<open>_tracker.add(widget)\<close> (line 604), then \<^verbatim>\<open>_onWidgetDisposed\<close>, connected at line 614
  for a widget that was not injected. The focus tracker drops the widget from its list;
  when the widget was its current widget it makes \<open>next\<close> its current widget and emits
  the change. \<open>next\<close> is the focus tracker's own choice among the widgets it still tracks
  (\<^verbatim>\<open>null\<close> when none of them has had the focus) and is a parameter here.
\<close>

definition w_dispose_obj :: "widget_tracker \<Rightarrow> obj \<Rightarrow> obj option \<Rightarrow> widget_tracker" where
  "w_dispose_obj s widget next =
     (if isDisposed s widget then s
      else
        let s1 = s\<lparr>isDisposed := (isDisposed s)(widget := True)\<rparr>;
            s2 = (if widget \<in> set (tracker_widgets s1) then
                    let s1a = s1\<lparr>tracker_widgets := removeAll widget (tracker_widgets s1)\<rparr> in
                    if tracker_currentWidget s1a = Some widget
                    then w_onCurrentChanged (s1a\<lparr>tracker_currentWidget := next\<rparr>) next
                    else s1a
                  else s1)
        in if widget \<in> slots s2 then w_onWidgetDisposed s2 widget else s2)"

subsection \<open>The synchronous parts of save\<close>

text \<open>
  \<^verbatim>\<open>InstanceTracker.save\<close> cut at its two \<^verbatim>\<open>await\<close>s (lines 384 and 392). A part ends
  suspended, with the locals \<^verbatim>\<open>oldName\<close> and \<^verbatim>\<open>newName\<close> its continuation needs, or
  returned.
\<close>

datatype save_progress =
    SaveReturned
  | SaveAwaitsRemove string string
  | SaveAwaitsWrite string string

text \<open>Lines 395 to 397.\<close>

definition save_done :: "instance_tracker \<Rightarrow> obj \<Rightarrow> string \<Rightarrow> string \<Rightarrow> instance_tracker" where
  "save_done s obj oldName newName =
     (if oldName \<noteq> newName then emit s (Updated obj) else s)"

text \<open>
  Lines 387 to 392, and on to the end when nothing is written. \<^verbatim>\<open>this._restore\<close> is read
  again here; it cannot be \<^verbatim>\<open>null\<close> after the guard of the first part has passed, and
  reading \<^verbatim>\<open>args\<close> of \<^verbatim>\<open>null\<close> would throw.
\<close>

definition save_named ::
  "instance_tracker \<Rightarrow> obj \<Rightarrow> string \<Rightarrow> string \<Rightarrow> save_progress \<times> instance_tracker" where
  "save_named s obj oldName newName =
     (let s1 = s\<lparr>nameProperty := (nameProperty s)(obj := newName)\<rparr> in
      if newName \<noteq> [] then
        (case restoreOpts s1 of
           None \<Rightarrow> (SaveReturned, s1)
         | Some r \<Rightarrow> (SaveAwaitsWrite oldName newName, db_save s1 newName (args r obj)))
      else (SaveReturned, save_done s1 obj oldName newName))"

text \<open>Lines 372 to 384, and on when nothing is removed.\<close>

definition save_begin :: "instance_tracker \<Rightarrow> obj \<Rightarrow> save_progress \<times> instance_tracker" where
  "save_begin s obj =
     (case restoreOpts s of
        None \<Rightarrow> (SaveReturned, s)
      | Some r \<Rightarrow>
          if \<not> has s obj \<or> injectedProperty s obj then (SaveReturned, s)
          else
            let objName = name r obj;
                oldName = nameProperty s obj;
                newName = (if objName \<noteq> [] then namespace s @ '':'' @ objName else [])
            in if oldName \<noteq> [] \<and> oldName \<noteq> newName
               then (SaveAwaitsRemove oldName newName, db_remove s oldName)
               else save_named s obj oldName newName)"

text \<open>The parts in sequence, each continuation run as soon as its promise settles.\<close>

definition save_parts :: "instance_tracker \<Rightarrow> obj \<Rightarrow> instance_tracker" where
  "save_parts s obj =
     (case save_begin s obj of
        (SaveReturned, s1) \<Rightarrow> s1
      | (SaveAwaitsWrite oldName newName, s1) \<Rightarrow> save_done s1 obj oldName newName
      | (SaveAwaitsRemove oldName newName, s1) \<Rightarrow>
          (case save_named s1 obj oldName newName of
             (SaveAwaitsWrite old' new', s2) \<Rightarrow> save_done s2 obj old' new'
           | (other, s2) \<Rightarrow> s2))"

subsection \<open>Interleavings on an InstanceTracker\<close>

text \<open>
  Between two \<^verbatim>\<open>await\<close>s a method runs without interruption; at an \<^verbatim>\<open>await\<close> anything
  else may run before the continuation does. A segment is one such uninterrupted run:
  a method up to its first \<^verbatim>\<open>await\<close>, a continuation, the disposal of an object, a write
  to the setter of \<^verbatim>\<open>current\<close>. \<^verbatim>\<open>inject\<close> is one segment, since \<^verbatim>\<open>add\<close> returns for an
  injected object before its \<^verbatim>\<open>await\<close>. The continuation of \<^verbatim>\<open>restore\<close> is cut into the
  synchronous \<^verbatim>\<open>map\<close>, each \<^verbatim>\<open>catch\<close> handler, and the final \<^verbatim>\<open>resolve\<close>.
  The attached properties of \<^verbatim>\<open>namespace Private\<close> are module-level (lines 878 to 899), so
  another tracker's \<^verbatim>\<open>inject\<close>, \<^verbatim>\<open>add\<close> or \<^verbatim>\<open>save\<close> writes them too: \<open>InjectElsewhere\<close> and
  \<open>NameElsewhere\<close>.
\<close>

datatype segment =
    AddBegin obj
  | AddResume obj
  | Inject obj
  | SaveBegin obj
  | SaveNamed obj string string
  | SaveDone obj string string
  | RestoreBegin options
  | RestoreReplay options "string list \<times> jsval list"
  | RestoreCatch string
  | RestoreResolve
  | Dispose obj
  | SetCurrent obj
  | InjectElsewhere obj
  | NameElsewhere obj string

fun step :: "instance_tracker \<Rightarrow> segment \<Rightarrow> instance_tracker" where
  "step s (AddBegin x) = snd (add_begin s x)"
| "step s (AddResume x) = add_tail s x"
| "step s (Inject x) = snd (inject s x)"
| "step s (SaveBegin x) = snd (save_begin s x)"
| "step s (SaveNamed x oldName newName) = snd (save_named s x oldName newName)"
| "step s (SaveDone x oldName newName) = save_done s x oldName newName"
| "step s (RestoreBegin opts) = snd (restore_begin s opts)"
| "step s (RestoreReplay opts saved) = snd (replay_all opts s (saved_records saved))"
| "step s (RestoreCatch key) = db_remove s key"
| "step s RestoreResolve = s\<lparr>restored := restored s + 1\<rparr>"
| "step s (Dispose x) = dispose_obj s x"
| "step s (SetCurrent x) = set_current s x"
| "step s (InjectElsewhere x) = s\<lparr>injectedProperty := (injectedProperty s)(x := True)\<rparr>"
| "step s (NameElsewhere x n) = s\<lparr>nameProperty := (nameProperty s)(x := n)\<rparr>"

definition run :: "instance_tracker \<Rightarrow> segment list \<Rightarrow> instance_tracker" where
  "run s gs = foldl step s gs"

text \<open>A tracker as its constructor leaves it, in any world.\<close>

definition fresh :: "instance_tracker \<Rightarrow> bool" where
  "fresh s = (instances s = [] \<and> current s = None \<and> \<not> hasRestored s \<and> restoreOpts s = None
              \<and> restored s = 0 \<and> slots s = {} \<and> emitted s = [])"

subsection \<open>Auxiliary notions and sample states\<close>

text \<open>
  The promise the mapped function of \<open>restore\<close> returns for a record, whatever the state,
  and whether the record ends up removed: it had no arguments, or its execution rejected.
\<close>

definition promise_of :: "options \<Rightarrow> string \<times> jsval \<Rightarrow> pending" where
  "promise_of opts r =
     (case args_of_value (snd r) of
        None \<Rightarrow> Removing
      | Some a \<Rightarrow> Executing (registry opts (command opts) a))"

definition cleaned :: "options \<Rightarrow> string \<times> jsval \<Rightarrow> bool" where
  "cleaned opts r =
     (case args_of_value (snd r) of
        None \<Rightarrow> True
      | Some a \<Rightarrow> (case registry opts (command opts) a of Inl e \<Rightarrow> True | Inr v \<Rightarrow> False))"

text \<open>
  Sample restore options: object 0 has no name, every other object is named \<^verbatim>\<open>doc1\<close>; the
  command rejects the argument \<^verbatim>\<open>null\<close> and resolves with \<^verbatim>\<open>'opened'\<close> otherwise.
\<close>

definition opts0 :: options where
  "opts0 =
     \<lparr>command = ''open'',
      args = (\<lambda>x. JObj [(''path'', JStr ''a.txt'')]),
      name = (\<lambda>x. if x = 0 then [] else ''doc1''),
      registry = (\<lambda>c a. if a = JNull then Inl ''no arguments'' else Inr (Some (JStr ''opened'')))\<rparr>"

text \<open>New trackers of namespace \<^verbatim>\<open>nb\<close>, in a world where only object 9 is disposed.\<close>

definition tracker0 :: instance_tracker where
  "tracker0 =
     \<lparr>namespace = ''nb'', hasRestored = False, restoreOpts = None, restored = 0,
      injectedProperty = (\<lambda>x. False), nameProperty = (\<lambda>x. []), isDisposed = (\<lambda>x. x = 9),
      slots = {}, db = Map.empty, db_calls = [], executed = [], emitted = [],
      instances = [], current = None\<rparr>"

definition widgets0 :: widget_tracker where
  "widgets0 =
     \<lparr>namespace = ''nb'', hasRestored = False, restoreOpts = None, restored = 0,
      injectedProperty = (\<lambda>x. False), nameProperty = (\<lambda>x. []), isDisposed = (\<lambda>x. x = 9),
      slots = {}, db = Map.empty, db_calls = [], executed = [], emitted = [],
      tracker_widgets = [], tracker_currentWidget = None, widgets = [], currentWidget = None\<rparr>"

text \<open>
  A listing of three records: one that replays, one without \<^verbatim>\<open>data\<close>, one whose
  \<^verbatim>\<open>data\<close> is \<^verbatim>\<open>null\<close>; and a tracker whose database holds them.
\<close>

definition saved0 :: "string list \<times> jsval list" where
  "saved0 =
     ([''nb:doc1'', ''nb:gone'', ''nb:null''],
      [Some (JObj [(''data'', JObj [(''path'', JStr ''a.txt'')])]),
       Some (JObj []),
       Some (JObj [(''data'', JNull)])])"

definition tracker_db :: instance_tracker where
  "tracker_db =
     tracker0\<lparr>db := [''nb:doc1'' \<mapsto> JObj [(''data'', JObj [(''path'', JStr ''a.txt'')])],
                     ''nb:gone'' \<mapsto> JObj [],
                     ''nb:null'' \<mapsto> JObj [(''data'', JNull)]]\<rparr>"

text \<open>The same trackers once \<^verbatim>\<open>restore\<close> has installed the sample options.\<close>

definition tracker_r :: instance_tracker where
  "tracker_r = tracker0\<lparr>hasRestored := True, restoreOpts := Some opts0\<rparr>"

definition widgets_r :: widget_tracker where
  "widgets_r = widgets0\<lparr>hasRestored := True, restoreOpts := Some opts0\<rparr>"

text \<open>
  The current pointer is \<^verbatim>\<open>null\<close> or a tracked item.
\<close>

definition current_ok :: "instance_tracker \<Rightarrow> bool" where
  "current_ok s = (case current s of None \<Rightarrow> True | Some c \<Rightarrow> has s c)"

text \<open>
  The objects whose \<^verbatim>\<open>add\<close> is suspended at its \<^verbatim>\<open>await\<close>, after a segment.
\<close>

fun pending_after :: "instance_tracker \<Rightarrow> obj set \<Rightarrow> segment \<Rightarrow> obj set" where
  "pending_after s P (AddBegin x) = (if fst (add_begin s x) = Suspended then insert x P else P)"
| "pending_after s P (AddResume x) = P - {x}"
| "pending_after s P other = P"

text \<open>
  The interleavings the amended invariant is about. A continuation of \<^verbatim>\<open>add\<close> runs only
  for a suspended \<^verbatim>\<open>add\<close>. The setter of \<^verbatim>\<open>current\<close> is written with tracked items only;
  no object is marked injected, here or by another tracker, while it is tracked here; no
  object is disposed while an \<^verbatim>\<open>add\<close> of it is suspended. The other segments may come at
  any point.
\<close>

fun allowed :: "instance_tracker \<Rightarrow> obj set \<Rightarrow> segment \<Rightarrow> bool" where
  "allowed s P (AddResume x) = (x \<in> P)"
| "allowed s P (SetCurrent x) = has s x"
| "allowed s P (Inject x) = (\<not> has s x)"
| "allowed s P (InjectElsewhere x) = (\<not> has s x)"
| "allowed s P (Dispose x) = (x \<notin> P)"
| "allowed s P other = True"

fun admissible :: "instance_tracker \<Rightarrow> obj set \<Rightarrow> segment list \<Rightarrow> bool" where
  "admissible s P [] = True"
| "admissible s P (g # gs) = (allowed s P g \<and> admissible (step s g) (pending_after s P g) gs)"

text \<open>
  What the disposal slot relies on: an object whose \<^verbatim>\<open>disposed\<close> signal is connected is
  tracked or disposed, and a tracked one among them is not injected; and an object whose
  \<^verbatim>\<open>add\<close> is suspended is tracked.
\<close>

definition connected_inv :: "instance_tracker \<Rightarrow> obj set \<Rightarrow> bool" where
  "connected_inv s P =
     ((\<forall>x \<in> slots s. (has s x \<or> isDisposed s x) \<and> (has s x \<longrightarrow> \<not> injectedProperty s x))
      \<and> (\<forall>x \<in> P. has s x))"

text \<open>
  Three widgets added to a new \<^verbatim>\<open>WidgetTracker\<close>, the second of which then takes the
  focus; and a widget added and another injected.
\<close>

definition widgets_focused :: widget_tracker where
  "widgets_focused = w_focus (snd (w_add (snd (w_add (snd (w_add widgets0 1)) 2)) 3)) 2"

definition widgets_mixed :: widget_tracker where
  "widgets_mixed = w_inject (snd (w_add widgets0 1)) 2"

section \<open>Properties\<close>

subsection \<open>Rejected additions\<close>

lemma add_cases:
  "add s obj =
     (if isDisposed s obj then (Thrown DisposedObject, s)
      else if has s obj then (Thrown AlreadyExists, s)
      else (Returned, snd (add s obj)))"
  by (simp add: add_def add_begin_def has_def Let_def split: option.splits)

lemma add_members:
  "\<not> isDisposed s obj \<Longrightarrow> \<not> has s obj \<Longrightarrow>
     instances (snd (add s obj)) = instances s @ [obj] \<and> isDisposed (snd (add s obj)) = isDisposed s"
  by (simp add: add_def add_begin_def has_def add_tail_def set_current_def emit_def db_save_def Let_def split: option.splits)

lemma w_add_cases:
  "w_add t w =
     (if isDisposed t w then (Thrown DisposedObject, t)
      else if w_has t w then (Thrown AlreadyExists, t)
      else (fst (w_add t w), snd (w_add t w)))"
  by (simp add: w_add_def)

lemma w_add_members:
  "\<not> isDisposed t w \<Longrightarrow> \<not> w_has t w \<Longrightarrow>
     tracker_widgets (snd (w_add t w)) = tracker_widgets t @ [w] \<and> isDisposed (snd (w_add t w)) = isDisposed t
     \<and> fst (w_add t w) \<noteq> Thrown e"
  by (simp add: w_add_def w_has_def emit_def db_save_def Let_def split: option.splits prod.splits)

text \<open>
  Claim C9. \<^verbatim>\<open>add\<close> rejects in exactly two cases, a disposed object and an object that
  is already tracked, and then returns the tracker state as it was: no field changes, so no
  signal is emitted and no database call is made. Adding an object that is accepted and
  adding it again rejects the second call and leaves the size one above the start. This
  holds of \<^verbatim>\<open>InstanceTracker.add\<close> (\<open>add\<close>) and of \<^verbatim>\<open>WidgetTracker.add\<close> (\<open>w_add\<close>).
\<close>

theorem add_rejects:
  "((\<exists>e. fst (add s obj) = Thrown e) = (isDisposed s obj \<or> has s obj))
   \<and> (isDisposed s obj \<longrightarrow> add s obj = (Thrown DisposedObject, s))
   \<and> (\<not> isDisposed s obj \<and> has s obj \<longrightarrow> add s obj = (Thrown AlreadyExists, s))
   \<and> (\<not> isDisposed s obj \<and> \<not> has s obj \<longrightarrow>
        fst (add s obj) = Returned
        \<and> add (snd (add s obj)) obj = (Thrown AlreadyExists, snd (add s obj))
        \<and> tracker_size (snd (add (snd (add s obj)) obj)) = tracker_size s + 1)
   \<and> ((\<exists>e. fst (w_add t w) = Thrown e) = (isDisposed t w \<or> w_has t w))
   \<and> (isDisposed t w \<longrightarrow> w_add t w = (Thrown DisposedObject, t))
   \<and> (\<not> isDisposed t w \<and> w_has t w \<longrightarrow> w_add t w = (Thrown AlreadyExists, t))
   \<and> (\<not> isDisposed t w \<and> \<not> w_has t w \<longrightarrow>
        w_add (snd (w_add t w)) w = (Thrown AlreadyExists, snd (w_add t w))
        \<and> w_size (snd (w_add (snd (w_add t w)) w)) = w_size t + 1)"
proof -
  have a: "(\<exists>e. fst (add s obj) = Thrown e) = (isDisposed s obj \<or> has s obj)"
    by (subst add_cases) auto
  have b: "isDisposed s obj \<longrightarrow> add s obj = (Thrown DisposedObject, s)"
    by (subst add_cases) simp
  have c: "\<not> isDisposed s obj \<and> has s obj \<longrightarrow> add s obj = (Thrown AlreadyExists, s)"
    by (subst add_cases) simp
  have d: "\<not> isDisposed s obj \<and> \<not> has s obj \<longrightarrow>
        fst (add s obj) = Returned
        \<and> add (snd (add s obj)) obj = (Thrown AlreadyExists, snd (add s obj))
        \<and> tracker_size (snd (add (snd (add s obj)) obj)) = tracker_size s + 1"
  proof (intro impI)
    assume h: "\<not> isDisposed s obj \<and> \<not> has s obj"
    then have m: "instances (snd (add s obj)) = instances s @ [obj]"
      and dd: "isDisposed (snd (add s obj)) = isDisposed s"
      using add_members by auto
    have r: "fst (add s obj) = Returned" using h by (subst add_cases) simp
    have again: "add (snd (add s obj)) obj = (Thrown AlreadyExists, snd (add s obj))"
      using h m dd by (subst add_cases) (simp add: has_def)
    show "fst (add s obj) = Returned
        \<and> add (snd (add s obj)) obj = (Thrown AlreadyExists, snd (add s obj))
        \<and> tracker_size (snd (add (snd (add s obj)) obj)) = tracker_size s + 1"
      using r again m by (simp add: tracker_size_def)
  qed
  have a': "(\<exists>e. fst (w_add t w) = Thrown e) = (isDisposed t w \<or> w_has t w)"
    using w_add_members[of t w] by (cases "isDisposed t w \<or> w_has t w") (auto simp: w_add_def)
  have b': "isDisposed t w \<longrightarrow> w_add t w = (Thrown DisposedObject, t)"
    by (simp add: w_add_def)
  have c': "\<not> isDisposed t w \<and> w_has t w \<longrightarrow> w_add t w = (Thrown AlreadyExists, t)"
    by (simp add: w_add_def)
  have d': "\<not> isDisposed t w \<and> \<not> w_has t w \<longrightarrow>
        w_add (snd (w_add t w)) w = (Thrown AlreadyExists, snd (w_add t w))
        \<and> w_size (snd (w_add (snd (w_add t w)) w)) = w_size t + 1"
  proof (intro impI)
    assume h: "\<not> isDisposed t w \<and> \<not> w_has t w"
    then have m: "tracker_widgets (snd (w_add t w)) = tracker_widgets t @ [w]"
      and dd: "isDisposed (snd (w_add t w)) = isDisposed t"
      using w_add_members by auto
    have again: "w_add (snd (w_add t w)) w = (Thrown AlreadyExists, snd (w_add t w))"
      using h m dd by (subst w_add_cases) (simp add: w_has_def)
    show "w_add (snd (w_add t w)) w = (Thrown AlreadyExists, snd (w_add t w))
        \<and> w_size (snd (w_add (snd (w_add t w)) w)) = w_size t + 1"
      using again m by (simp add: w_size_def)
  qed
  from a b c d a' b' c' d' show ?thesis by blast
qed

theorem add_rejects_witness:
  "isDisposed tracker0 9 \<and> add tracker0 9 = (Thrown DisposedObject, tracker0)
   \<and> \<not> isDisposed tracker0 1 \<and> \<not> has tracker0 1
   \<and> fst (add tracker0 1) = Returned
   \<and> has (snd (add tracker0 1)) 1
   \<and> add (snd (add tracker0 1)) 1 = (Thrown AlreadyExists, snd (add tracker0 1))
   \<and> tracker_size (snd (add (snd (add tracker0 1)) 1)) = 1
   \<and> isDisposed widgets0 9 \<and> w_add widgets0 9 = (Thrown DisposedObject, widgets0)
   \<and> \<not> isDisposed widgets0 1 \<and> \<not> w_has widgets0 1
   \<and> w_has (snd (w_add widgets0 1)) 1
   \<and> w_add (snd (w_add widgets0 1)) 1 = (Thrown AlreadyExists, snd (w_add widgets0 1))
   \<and> w_size (snd (w_add (snd (w_add widgets0 1)) 1)) = 1"
  using add_rejects [of tracker0 9 widgets0 9] add_rejects [of tracker0 1 widgets0 1]
    add_members [of tracker0 1] w_add_members [of widgets0 1]
  by (simp add: tracker0_def widgets0_def has_def w_has_def tracker_size_def w_size_def)

subsection \<open>Saving\<close>

text \<open>
  Claim C2. For a tracked item that is not injected, with restore options installed,
  \<^verbatim>\<open>save\<close> makes these database calls and no other, in this order: a removal of the
  recorded old name when that name is not empty and differs from the new one, then a write
  of \<^verbatim>\<open>{ data: args(item) }\<close> under the new name when the new name is not empty. The
  recorded name becomes the new name in every case, the empty one too. The updated signal
  is emitted once when the two names differ and not at all when they are equal.
\<close>

theorem save_protocol:
  "(restoreOpts s = Some r \<and> has s obj \<and> \<not> injectedProperty s obj \<longrightarrow>
      (let oldName = nameProperty s obj;
           newName = (if name r obj \<noteq> [] then namespace s @ '':'' @ name r obj else [])
       in db_calls (save s obj) =
            db_calls s
            @ (if oldName \<noteq> [] \<and> oldName \<noteq> newName then [DbRemove oldName] else [])
            @ (if newName \<noteq> [] then [DbSave newName (JObj [(''data'', args r obj)])] else [])
          \<and> nameProperty (save s obj) = (nameProperty s)(obj := newName)
          \<and> emitted (save s obj) = emitted s @ (if oldName \<noteq> newName then [Updated obj] else [])))
   \<and> (restoreOpts t = Some r \<and> w_has t w \<and> \<not> injectedProperty t w \<longrightarrow>
      (let oldName = nameProperty t w;
           newName = (if name r w \<noteq> [] then namespace t @ '':'' @ name r w else [])
       in db_calls (w_save t w) =
            db_calls t
            @ (if oldName \<noteq> [] \<and> oldName \<noteq> newName then [DbRemove oldName] else [])
            @ (if newName \<noteq> [] then [DbSave newName (JObj [(''data'', args r w)])] else [])
          \<and> nameProperty (w_save t w) = (nameProperty t)(w := newName)
          \<and> emitted (w_save t w) = emitted t @ (if oldName \<noteq> newName then [Updated w] else [])))"
proof (intro conjI impI)
  assume "restoreOpts s = Some r \<and> has s obj \<and> \<not> injectedProperty s obj"
  then show "let oldName = nameProperty s obj;
           newName = (if name r obj \<noteq> [] then namespace s @ '':'' @ name r obj else [])
       in db_calls (save s obj) =
            db_calls s
            @ (if oldName \<noteq> [] \<and> oldName \<noteq> newName then [DbRemove oldName] else [])
            @ (if newName \<noteq> [] then [DbSave newName (JObj [(''data'', args r obj)])] else [])
          \<and> nameProperty (save s obj) = (nameProperty s)(obj := newName)
          \<and> emitted (save s obj) = emitted s @ (if oldName \<noteq> newName then [Updated obj] else [])"
    by (simp add: save_def Let_def db_remove_def db_save_def emit_def)
next
  assume "restoreOpts t = Some r \<and> w_has t w \<and> \<not> injectedProperty t w"
  then show "let oldName = nameProperty t w;
           newName = (if name r w \<noteq> [] then namespace t @ '':'' @ name r w else [])
       in db_calls (w_save t w) =
            db_calls t
            @ (if oldName \<noteq> [] \<and> oldName \<noteq> newName then [DbRemove oldName] else [])
            @ (if newName \<noteq> [] then [DbSave newName (JObj [(''data'', args r w)])] else [])
          \<and> nameProperty (w_save t w) = (nameProperty t)(w := newName)
          \<and> emitted (w_save t w) = emitted t @ (if oldName \<noteq> newName then [Updated w] else [])"
    by (simp add: w_save_def Let_def db_remove_def db_save_def emit_def)
qed

theorem save_protocol_witness:
  "restoreOpts (tracker0\<lparr>restoreOpts := Some opts0, instances := [1],
                          nameProperty := (\<lambda>x. ''nb:old'')\<rparr>) = Some opts0
   \<and> has (tracker0\<lparr>restoreOpts := Some opts0, instances := [1],
                     nameProperty := (\<lambda>x. ''nb:old'')\<rparr>) 1
   \<and> db_calls (save (tracker0\<lparr>restoreOpts := Some opts0, instances := [1],
                              nameProperty := (\<lambda>x. ''nb:old'')\<rparr>) 1)
       = [DbRemove ''nb:old'', DbSave ''nb:doc1'' (JObj [(''data'', JObj [(''path'', JStr ''a.txt'')])])]
   \<and> emitted (save (tracker0\<lparr>restoreOpts := Some opts0, instances := [1],
                              nameProperty := (\<lambda>x. ''nb:old'')\<rparr>) 1) = [Updated 1]
   \<and> restoreOpts (widgets0\<lparr>restoreOpts := Some opts0, tracker_widgets := [1],
                          nameProperty := (\<lambda>x. ''nb:doc1'')\<rparr>) = Some opts0
   \<and> w_has (widgets0\<lparr>restoreOpts := Some opts0, tracker_widgets := [1],
                     nameProperty := (\<lambda>x. ''nb:doc1'')\<rparr>) 1
   \<and> db_calls (w_save (widgets0\<lparr>restoreOpts := Some opts0, tracker_widgets := [1],
                              nameProperty := (\<lambda>x. ''nb:doc1'')\<rparr>) 1)
       = [DbSave ''nb:doc1'' (JObj [(''data'', JObj [(''path'', JStr ''a.txt'')])])]
   \<and> emitted (w_save (widgets0\<lparr>restoreOpts := Some opts0, tracker_widgets := [1],
                              nameProperty := (\<lambda>x. ''nb:doc1'')\<rparr>) 1) = []"
  using save_protocol [of "tracker0\<lparr>restoreOpts := Some opts0, instances := [1],
                          nameProperty := (\<lambda>x. ''nb:old'')\<rparr>" opts0 1
      "widgets0\<lparr>restoreOpts := Some opts0, tracker_widgets := [1],
                          nameProperty := (\<lambda>x. ''nb:doc1'')\<rparr>" 1]
  by (simp add: tracker0_def widgets0_def opts0_def has_def w_has_def Let_def)

subsection \<open>Disposal of the current item\<close>

text \<open>
  What the disposal of a connected, non-injected current item does. In \<^verbatim>\<open>InstanceTracker\<close>
  the pointer becomes \<^verbatim>\<open>null\<close>. In \<^verbatim>\<open>WidgetTracker\<close> it depends on the focus: a current
  widget that is not the focus tracker's current widget reaches the recomputation of
  lines 841 to 848; one that is has the pointer moved by \<^verbatim>\<open>_onCurrentChanged\<close> first, to
  whatever the focus tracker falls back to, and the recomputation is skipped.
\<close>

lemma dispose_current_instance:
  assumes "obj \<in> slots s" "\<not> isDisposed s obj" "\<not> injectedProperty s obj" "current s = Some obj"
  shows "current (dispose_obj s obj) = None
     \<and> emitted (dispose_obj s obj) = emitted s @ [CurrentChanged None]
     \<and> \<not> has (dispose_obj s obj) obj"
  using assms
  by (simp add: dispose_obj_def onInstanceDisposed_def has_def emit_def db_remove_def Let_def
        split: option.splits)

lemma dispose_current_widget_unfocused:
  assumes "w \<in> slots t" "\<not> isDisposed t w" "\<not> injectedProperty t w" "currentWidget t = Some w"
    and "tracker_currentWidget t \<noteq> Some w"
  shows "currentWidget (w_dispose_obj t w next) =
           (case tracker_currentWidget t of
              Some focused \<Rightarrow> Some focused
            | None \<Rightarrow> (if remove1 w (widgets t) = [] then None
                       else Some (last (remove1 w (widgets t)))))
     \<and> emitted (w_dispose_obj t w next) =
           emitted t @ [CurrentChanged (currentWidget (w_dispose_obj t w next))]"
  using assms
  by (simp add: w_dispose_obj_def w_onWidgetDisposed_def emit_def db_remove_def Let_def
        split: option.splits)

lemma dispose_current_widget_focused:
  assumes "w \<in> set (tracker_widgets t)" "\<not> isDisposed t w" "\<not> injectedProperty t w"
    and "currentWidget t = Some w" "tracker_currentWidget t = Some w" "next \<noteq> Some w"
  shows "currentWidget (w_dispose_obj t w next) = next
     \<and> emitted (w_dispose_obj t w next) = emitted t @ [CurrentChanged next]"
  using assms
  by (simp add: w_dispose_obj_def w_onCurrentChanged_def w_onWidgetDisposed_def emit_def
        db_remove_def Let_def split: option.splits)

text \<open>
  Claim C8 holds of \<^verbatim>\<open>InstanceTracker\<close> (an added object, current, is disposed: the pointer
  becomes \<^verbatim>\<open>null\<close> and \<^verbatim>\<open>currentChanged\<close> fires with \<^verbatim>\<open>null\<close>) and of a \<^verbatim>\<open>WidgetTracker\<close>
  whose current widget never had the focus (three widgets added, the third disposed: the
  second, the last one remaining, becomes current). It does not hold in two cases. Three
  widgets are added, the second takes the focus and is disposed: the focus tracker has no
  widget to fall back to, the pointer becomes \<^verbatim>\<open>null\<close> although two widgets remain, and the
  last one is not made current. A widget is added, another injected and disposed, then the
  first disposed: the injected widget is still in \<^verbatim>\<open>_widgets\<close> and becomes current, disposed
  and no longer tracked, where no item remains.
\<close>

theorem disposal_of_focused_current:
  "current (snd (add tracker0 1)) = Some 1
   \<and> current (dispose_obj (snd (add tracker0 1)) 1) = None
   \<and> emitted (dispose_obj (snd (add tracker0 1)) 1)
       = emitted (snd (add tracker0 1)) @ [CurrentChanged None]
   \<and> currentWidget (snd (w_add (snd (w_add (snd (w_add widgets0 1)) 2)) 3)) = Some 3
   \<and> currentWidget (w_dispose_obj (snd (w_add (snd (w_add (snd (w_add widgets0 1)) 2)) 3)) 3 None)
       = Some 2
   \<and> tracker_widgets widgets_focused = [1, 2, 3]
   \<and> tracker_currentWidget widgets_focused = Some 2
   \<and> currentWidget widgets_focused = Some 2
   \<and> \<not> injectedProperty widgets_focused 2
   \<and> 2 \<in> slots widgets_focused
   \<and> tracker_widgets (w_dispose_obj widgets_focused 2 None) = [1, 3]
   \<and> widgets (w_dispose_obj widgets_focused 2 None) = [1, 3]
   \<and> tracker_currentWidget (w_dispose_obj widgets_focused 2 None) = None
   \<and> currentWidget (w_dispose_obj widgets_focused 2 None) = None
   \<and> emitted (w_dispose_obj widgets_focused 2 None) = emitted widgets_focused @ [CurrentChanged None]
   \<and> currentWidget (w_dispose_obj widgets_mixed 2 None) = Some 1
   \<and> \<not> w_has (w_dispose_obj widgets_mixed 2 None) 2
   \<and> widgets (w_dispose_obj widgets_mixed 2 None) = [1, 2]
   \<and> tracker_currentWidget (w_dispose_obj widgets_mixed 2 None) = None
   \<and> currentWidget (w_dispose_obj (w_dispose_obj widgets_mixed 2 None) 1 None) = Some 2
   \<and> isDisposed (w_dispose_obj (w_dispose_obj widgets_mixed 2 None) 1 None) 2
   \<and> w_size (w_dispose_obj (w_dispose_obj widgets_mixed 2 None) 1 None) = 0"
  by (simp add: widgets_focused_def widgets_mixed_def widgets0_def tracker0_def w_focus_def
        w_dispose_obj_def w_add_def w_inject_def w_has_def w_size_def w_onCurrentChanged_def
        w_onWidgetDisposed_def add_def add_begin_def add_tail_def set_current_def dispose_obj_def
        onInstanceDisposed_def has_def emit_def db_save_def db_remove_def Let_def)

subsection \<open>Restoration\<close>

lemma fst_replay: "fst (replay opts s r) = promise_of opts r"
  by (simp add: replay_def promise_of_def split: option.splits)

lemma replay_all_fst: "fst (replay_all opts s rs) = map (promise_of opts) rs"
proof (induction rs arbitrary: s)
  case Nil
  show ?case by simp
next
  case (Cons r rs)
  have "fst (replay opts s r) = promise_of opts r" by (rule fst_replay)
  then show ?case using Cons.IH [of "snd (replay opts s r)"]
    by (simp add: split_beta Let_def)
qed

lemma replay_frame:
  "\<exists>d c e. snd (replay opts s r) = s\<lparr>db := d, db_calls := c, executed := e\<rparr>"
proof (cases "args_of_value (snd r)")
  case None
  then have "snd (replay opts s r) = s\<lparr>db := (db s)(fst r := None), db_calls := db_calls s @ [DbRemove (fst r)], executed := executed s\<rparr>"
    by (simp add: replay_def db_remove_def)
  then show ?thesis by blast
next
  case (Some a)
  then have "snd (replay opts s r) = s\<lparr>db := db s, db_calls := db_calls s, executed := executed s @ [(command opts, a)]\<rparr>"
    by (simp add: replay_def)
  then show ?thesis by blast
qed

lemma replay_all_frame:
  "\<exists>d c e. snd (replay_all opts s rs) = s\<lparr>db := d, db_calls := c, executed := e\<rparr>"
proof (induction rs arbitrary: s)
  case Nil
  have "s = s\<lparr>db := db s, db_calls := db_calls s, executed := executed s\<rparr>" by simp
  then show ?case by (metis replay_all.simps(1) snd_conv)
next
  case (Cons r rs)
  obtain d c e where 1: "snd (replay opts s r) = s\<lparr>db := d, db_calls := c, executed := e\<rparr>"
    using replay_frame by blast
  obtain d' c' e' where 2: "snd (replay_all opts (snd (replay opts s r)) rs)
      = (snd (replay opts s r))\<lparr>db := d', db_calls := c', executed := e'\<rparr>"
    using Cons.IH by blast
  have "snd (replay_all opts s (r # rs)) = snd (replay_all opts (snd (replay opts s r)) rs)"
    by (simp add: split_beta Let_def)
  also have "\<dots> = s\<lparr>db := d', db_calls := c', executed := e'\<rparr>"
    using 1 2 by simp
  finally show ?case by blast
qed

lemma replay_all_db:
  "db (snd (replay_all opts s rs)) k =
     (if \<exists>r \<in> set rs. fst r = k \<and> args_of_value (snd r) = None then None else db s k)"
proof (induction rs arbitrary: s)
  case Nil
  show ?case by simp
next
  case (Cons r rs)
  have step: "db (snd (replay opts s r)) k =
      (if fst r = k \<and> args_of_value (snd r) = None then None else db s k)"
    by (auto simp: replay_def db_remove_def split: option.splits)
  have "db (snd (replay_all opts s (r # rs))) k = db (snd (replay_all opts (snd (replay opts s r)) rs)) k"
    by (simp add: split_beta Let_def)
  then show ?case using Cons.IH [of "snd (replay opts s r)"] step by auto
qed

lemma replay_all_executed:
  "executed (snd (replay_all opts s rs)) =
     executed s @ map (Pair (command opts)) (List.map_filter (\<lambda>r. args_of_value (snd r)) rs)"
proof (induction rs arbitrary: s)
  case Nil
  show ?case by (simp add: List.map_filter_simps)
next
  case (Cons r rs)
  have step: "executed (snd (replay opts s r)) =
      executed s @ (case args_of_value (snd r) of None \<Rightarrow> [] | Some a \<Rightarrow> [(command opts, a)])"
    by (auto simp: replay_def db_remove_def split: option.splits)
  have "executed (snd (replay_all opts s (r # rs))) = executed (snd (replay_all opts (snd (replay opts s r)) rs))"
    by (simp add: split_beta Let_def)
  then show ?case using Cons.IH [of "snd (replay opts s r)"] step
    by (simp add: List.map_filter_simps split: option.splits)
qed

lemma settle_frame: "\<exists>d c. settle s kps = s\<lparr>db := d, db_calls := c\<rparr>"
proof (induction kps arbitrary: s)
  case Nil
  have "s = s\<lparr>db := db s, db_calls := db_calls s\<rparr>" by simp
  then show ?case by (metis settle.simps(1))
next
  case (Cons kp kps)
  obtain k p where kp: "kp = (k, p)" by (cases kp)
  define s1 where "s1 = (case p of Executing (Inl e) \<Rightarrow> db_remove s k | _ \<Rightarrow> s)"
  have "\<exists>d c. s1 = s\<lparr>db := d, db_calls := c\<rparr>"
  proof (cases "\<exists>e. p = Executing (Inl e)")
    case True
    then have "s1 = s\<lparr>db := (db s)(k := None), db_calls := db_calls s @ [DbRemove k]\<rparr>"
      by (auto simp: s1_def db_remove_def)
    then show ?thesis by blast
  next
    case False
    then have "s1 = s" by (auto simp: s1_def split: pending.splits sum.splits)
    then have "s1 = s\<lparr>db := db s, db_calls := db_calls s\<rparr>" by simp
    then show ?thesis by blast
  qed
  then obtain d c where 1: "s1 = s\<lparr>db := d, db_calls := c\<rparr>" by blast
  obtain d' c' where 2: "settle s1 kps = s1\<lparr>db := d', db_calls := c'\<rparr>" using Cons.IH by blast
  have "settle s (kp # kps) = settle s1 kps" by (simp add: kp s1_def)
  also have "\<dots> = s\<lparr>db := d', db_calls := c'\<rparr>" using 1 2 by simp
  finally show ?case by blast
qed

lemma settle_db:
  "db (settle s kps) k =
     (if \<exists>kp \<in> set kps. fst kp = k \<and> (\<exists>e. snd kp = Executing (Inl e)) then None else db s k)"
proof (induction kps arbitrary: s)
  case Nil
  show ?case by simp
next
  case (Cons kp kps)
  obtain k' p where kp: "kp = (k', p)" by (cases kp)
  define s1 where "s1 = (case p of Executing (Inl e) \<Rightarrow> db_remove s k' | _ \<Rightarrow> s)"
  have step: "db s1 k = (if k' = k \<and> (\<exists>e. p = Executing (Inl e)) then None else db s k)"
    by (auto simp: s1_def db_remove_def split: pending.splits sum.splits)
  have "settle s (kp # kps) = settle s1 kps" by (simp add: kp s1_def)
  then show ?case using Cons.IH [of s1] step kp by auto
qed

lemma settle_executed: "executed (settle s kps) = executed s"
proof -
  obtain d c where "settle s kps = s\<lparr>db := d, db_calls := c\<rparr>" using settle_frame by blast
  then show ?thesis by simp
qed

lemma saved_records_keys: "map fst (saved_records saved) = fst saved"
  by (simp add: saved_records_def comp_def map_nth)

lemma saved_records_length: "length (saved_records saved) = length (fst saved)"
  by (simp add: saved_records_def)

lemma saved_records_nth:
  "i < length (fst saved) \<Longrightarrow> saved_records saved ! i = (fst saved ! i, value_at (snd saved) i)"
  by (simp add: saved_records_def)

lemma restore_again: "hasRestored s \<Longrightarrow> restore s opts saved = (Inl AlreadyRestored, s)"
  by (simp add: restore_def restore_begin_def)

lemma restore_begin_first:
  "\<not> hasRestored s \<Longrightarrow>
     restore_begin s opts =
       (Suspended, s\<lparr>hasRestored := True, restoreOpts := Some opts,
                     db_calls := db_calls s @ [DbList (namespace s)]\<rparr>)"
  by (simp add: restore_begin_def Let_def)

lemma restore_resume_eq:
  "restore_resume s opts saved =
     (map (\<lambda>r. outcome (promise_of opts r)) (saved_records saved),
      (settle (snd (replay_all opts s (saved_records saved)))
         (map (\<lambda>r. (fst r, promise_of opts r)) (saved_records saved)))
        \<lparr>restored := restored s + 1\<rparr>)"
proof -
  have z: "zip (map fst rs) (map (promise_of opts) rs) = map (\<lambda>r. (fst r, promise_of opts r)) rs" for rs
    by (induction rs) auto
  obtain d c e where 1: "snd (replay_all opts s (saved_records saved)) = s\<lparr>db := d, db_calls := c, executed := e\<rparr>"
    using replay_all_frame by blast
  obtain d' c' where 2: "settle (snd (replay_all opts s (saved_records saved)))
         (map (\<lambda>r. (fst r, promise_of opts r)) (saved_records saved))
      = (snd (replay_all opts s (saved_records saved)))\<lparr>db := d', db_calls := c'\<rparr>"
    using settle_frame by blast
  have n: "restored (settle (snd (replay_all opts s (saved_records saved)))
         (map (\<lambda>r. (fst r, promise_of opts r)) (saved_records saved))) = restored s"
    using 1 2 by simp
  show ?thesis
    using n by (simp add: restore_resume_def Let_def split_beta replay_all_fst z)
qed

lemma restore_resume_frame:
  "\<exists>d c e. snd (restore_resume s opts saved)
      = s\<lparr>restored := restored s + 1, db := d, db_calls := c, executed := e\<rparr>"
proof -
  obtain d c e where 1: "snd (replay_all opts s (saved_records saved)) = s\<lparr>db := d, db_calls := c, executed := e\<rparr>"
    using replay_all_frame by blast
  obtain d' c' where 2: "settle (snd (replay_all opts s (saved_records saved)))
         (map (\<lambda>r. (fst r, promise_of opts r)) (saved_records saved))
      = (snd (replay_all opts s (saved_records saved)))\<lparr>db := d', db_calls := c'\<rparr>"
    using settle_frame by blast
  have "snd (restore_resume s opts saved) = s\<lparr>restored := restored s + 1, db := d', db_calls := c', executed := e\<rparr>"
    using 1 2 by (simp add: restore_resume_eq)
  then show ?thesis by blast
qed

lemma restore_resume_db:
  "db (snd (restore_resume s opts saved)) k =
     (if \<exists>r \<in> set (saved_records saved). fst r = k \<and> cleaned opts r then None else db s k)"
proof -
  have c: "cleaned opts r = (args_of_value (snd r) = None \<or> (\<exists>e. promise_of opts r = Executing (Inl e)))" for r
    by (auto simp: cleaned_def promise_of_def split: option.splits sum.splits)
  show ?thesis
    unfolding restore_resume_eq
    by (auto simp: settle_db replay_all_db c)
qed

lemma restore_resume_executed:
  "executed (snd (restore_resume s opts saved)) =
     executed s @ map (Pair (command opts))
       (List.map_filter (\<lambda>r. args_of_value (snd r)) (saved_records saved))"
  unfolding restore_resume_eq by (simp add: settle_executed replay_all_executed)

lemma restore_first:
  assumes "\<not> hasRestored s"
  shows "restore s opts saved =
     (Inr (fst (restore_resume (snd (restore_begin s opts)) opts saved)),
      snd (restore_resume (snd (restore_begin s opts)) opts saved))"
  using assms by (simp add: restore_def restore_begin_first split_beta)

lemma restore_frame:
  "\<exists>h r n d c e. snd (restore s opts saved)
      = s\<lparr>hasRestored := h, restoreOpts := r, restored := n, db := d, db_calls := c, executed := e\<rparr>"
proof (cases "hasRestored s")
  case True
  have "s = s\<lparr>hasRestored := hasRestored s, restoreOpts := restoreOpts s, restored := restored s,
     db := db s, db_calls := db_calls s, executed := executed s\<rparr>" by simp
  then show ?thesis using True restore_again [of s opts saved] by (metis snd_conv)
next
  case False
  define s1 where "s1 = s\<lparr>hasRestored := True, restoreOpts := Some opts,
                     db_calls := db_calls s @ [DbList (namespace s)]\<rparr>"
  obtain d c e where 1: "snd (restore_resume s1 opts saved)
      = s1\<lparr>restored := restored s1 + 1, db := d, db_calls := c, executed := e\<rparr>"
    using restore_resume_frame by blast
  have "snd (restore s opts saved) = snd (restore_resume s1 opts saved)"
    using False by (simp add: restore_first restore_begin_first s1_def)
  also have "\<dots> = s\<lparr>hasRestored := True, restoreOpts := Some opts, restored := restored s + 1,
      db := d, db_calls := c, executed := e\<rparr>"
    using 1 by (simp add: s1_def)
  finally show ?thesis by blast
qed

lemma distinct_key_unique:
  assumes "distinct (fst saved)" "i < length (fst saved)"
  shows "(\<exists>r \<in> set (saved_records saved). fst r = fst saved ! i \<and> P r) = P (saved_records saved ! i)"
proof
  assume "\<exists>r \<in> set (saved_records saved). fst r = fst saved ! i \<and> P r"
  then obtain r where r: "r \<in> set (saved_records saved)" "fst r = fst saved ! i" "P r" by blast
  then obtain j where j: "j < length (saved_records saved)" "saved_records saved ! j = r"
    by (auto simp: in_set_conv_nth)
  then have "fst saved ! j = fst saved ! i" using r(2) by (auto simp: saved_records_length saved_records_nth)
  then have "j = i" using assms j(1) by (simp add: saved_records_length nth_eq_iff_index_eq)
  then show "P (saved_records saved ! i)" using j r by simp
next
  assume "P (saved_records saved ! i)"
  then show "\<exists>r \<in> set (saved_records saved). fst r = fst saved ! i \<and> P r"
    using assms(2) by (metis fst_conv nth_mem saved_records_length saved_records_nth)
qed

lemma restore_first_result:
  assumes "\<not> hasRestored s"
  shows "fst (restore s opts saved) =
     Inr (map (\<lambda>r. outcome (promise_of opts r)) (saved_records saved))"
  using assms by (simp add: restore_first restore_resume_eq)

lemma restore_first_db:
  assumes "\<not> hasRestored s" and "distinct (fst saved)" and "i < length (fst saved)"
  shows "db (snd (restore s opts saved)) (fst saved ! i) =
     (if cleaned opts (fst saved ! i, value_at (snd saved) i) then None else db s (fst saved ! i))"
proof -
  have st: "snd (restore s opts saved) = snd (restore_resume (snd (restore_begin s opts)) opts saved)"
    using assms(1) by (simp add: restore_first)
  have "db (snd (restore_begin s opts)) = db s"
    using assms(1) by (simp add: restore_begin_first)
  then show ?thesis
    unfolding st restore_resume_db
    using distinct_key_unique [OF assms(2,3), of "cleaned opts"] assms(3)
    by (simp add: saved_records_nth)
qed

lemma restore_first_executed:
  assumes "\<not> hasRestored s"
  shows "executed (snd (restore s opts saved)) =
     executed s @ map (Pair (command opts))
       (List.map_filter args_of_value (map (value_at (snd saved)) [0..<length (fst saved)]))"
proof -
  have st: "snd (restore s opts saved) = snd (restore_resume (snd (restore_begin s opts)) opts saved)"
    using assms(1) by (simp add: restore_first)
  have s1: "executed (snd (restore_begin s opts)) = executed s"
    using assms(1) by (simp add: restore_begin_first)
  have "List.map_filter (\<lambda>r. args_of_value (snd r)) (map (\<lambda>index. (f index, g index)) xs)
      = List.map_filter args_of_value (map g xs)" for f :: "nat \<Rightarrow> string" and g xs
    by (induction xs) (simp_all add: List.map_filter_simps split: option.splits)
  then have mf: "List.map_filter (\<lambda>r. args_of_value (snd r)) (saved_records saved)
      = List.map_filter args_of_value (map (value_at (snd saved)) [0..<length (fst saved)])"
    by (simp add: saved_records_def)
  show ?thesis unfolding st restore_resume_executed mf by (simp add: s1)
qed

lemma restore_calls_after:
  "hasRestored s \<Longrightarrow> restore_calls s cs = (map (\<lambda>c. Inl AlreadyRestored) cs, s)"
proof (induction cs)
  case Nil
  show ?case by simp
next
  case (Cons c cs)
  obtain opts saved where c: "c = (opts, saved)" by (cases c)
  show ?case using Cons by (simp add: c restore_again)
qed

text \<open>
  Claim C1. A first call of \<^verbatim>\<open>restore\<close> resolves with one outcome per listed record.
  Take the record at index \<open>i\<close> of a listing with distinct ids. When it has no data to
  replay (\<^verbatim>\<open>value && value.data\<close> is \<^verbatim>\<open>undefined\<close>: the value is absent, or it is an
  object without the key \<^verbatim>\<open>data\<close>) it is removed from the database and its outcome is
  that of the removal. When it has, the command is executed on the data:
  a rejection removes the record, a success leaves the record as it was and its value is
  the record's outcome. The record's fate depends on nothing but the record itself, so the
  failure of another record does not touch it. The commands executed are those of the
  records with data, in listing order: none is executed for a record without data. The
  statement is about \<open>restore\<close>, which is the body of both classes' method.
\<close>

theorem restore_record_handling:
  assumes "\<not> hasRestored s" and "distinct (fst saved)" and "i < length (fst saved)"
  shows
    "(\<exists>outs. fst (restore s opts saved) = Inr outs \<and> length outs = length (fst saved)
        \<and> (case args_of_value (value_at (snd saved) i) of
             None \<Rightarrow> db (snd (restore s opts saved)) (fst saved ! i) = None \<and> outs ! i = None
           | Some a \<Rightarrow>
               (case registry opts (command opts) a of
                  Inl e \<Rightarrow> db (snd (restore s opts saved)) (fst saved ! i) = None \<and> outs ! i = None
                | Inr v \<Rightarrow> db (snd (restore s opts saved)) (fst saved ! i) = db s (fst saved ! i)
                           \<and> outs ! i = v)))
     \<and> executed (snd (restore s opts saved)) =
         executed s @ map (Pair (command opts))
           (List.map_filter args_of_value (map (value_at (snd saved)) [0..<length (fst saved)]))"
proof -
  define outs where "outs = map (\<lambda>r. outcome (promise_of opts r)) (saved_records saved)"
  have res: "fst (restore s opts saved) = Inr outs"
    using assms(1) by (simp add: restore_first_result outs_def)
  have len: "length outs = length (fst saved)"
    by (simp add: outs_def saved_records_length)
  have out_i: "outs ! i = outcome (promise_of opts (fst saved ! i, value_at (snd saved) i))"
    using assms(3) by (simp add: outs_def saved_records_length saved_records_nth)
  have handling: "case args_of_value (value_at (snd saved) i) of
             None \<Rightarrow> db (snd (restore s opts saved)) (fst saved ! i) = None \<and> outs ! i = None
           | Some a \<Rightarrow>
               (case registry opts (command opts) a of
                  Inl e \<Rightarrow> db (snd (restore s opts saved)) (fst saved ! i) = None \<and> outs ! i = None
                | Inr v \<Rightarrow> db (snd (restore s opts saved)) (fst saved ! i) = db s (fst saved ! i)
                           \<and> outs ! i = v)"
    unfolding restore_first_db [OF assms] out_i
    by (simp add: cleaned_def promise_of_def split: option.splits sum.splits)
  from res len handling restore_first_executed [OF assms(1)] show ?thesis by blast
qed

theorem restore_record_handling_witness:
  "\<not> hasRestored tracker_db \<and> distinct (fst saved0) \<and> (2::nat) < length (fst saved0)
   \<and> (\<exists>outs. fst (restore tracker_db opts0 saved0) = Inr outs \<and> length outs = 3
        \<and> outs ! 0 = Some (JStr ''opened'') \<and> outs ! 1 = None \<and> outs ! 2 = None)
   \<and> db (snd (restore tracker_db opts0 saved0)) ''nb:doc1''
       = Some (JObj [(''data'', JObj [(''path'', JStr ''a.txt'')])])
   \<and> db (snd (restore tracker_db opts0 saved0)) ''nb:gone'' = None
   \<and> db (snd (restore tracker_db opts0 saved0)) ''nb:null'' = None
   \<and> executed (snd (restore tracker_db opts0 saved0))
       = [(''open'', JObj [(''path'', JStr ''a.txt'')]), (''open'', JNull)]"
  using restore_record_handling [of tracker_db saved0 0 opts0]
    restore_record_handling [of tracker_db saved0 1 opts0]
    restore_record_handling [of tracker_db saved0 2 opts0]
  by (auto simp: tracker_db_def tracker0_def saved0_def opts0_def value_at_def
        List.map_filter_simps upt_rec [of 0] upt_rec [of 1] upt_rec [of 2])

text \<open>
  Claim C3. The first call of \<^verbatim>\<open>restore\<close> sets \<^verbatim>\<open>_hasRestored\<close> in its synchronous
  part, before it suspends and before \<^verbatim>\<open>restored\<close> is resolved. From then on every call
  throws the already-restored error and returns the state as it was, whether it comes
  while the first call is suspended or after it has completed; so the first call's outcome
  stands and \<^verbatim>\<open>_restored.resolve\<close> has been called once, however many calls follow.
\<close>

theorem restore_once:
  assumes "\<not> hasRestored s" and "restored s = 0"
  shows "fst (restore_begin s opts) = Suspended
     \<and> hasRestored (snd (restore_begin s opts))
     \<and> restored (snd (restore_begin s opts)) = 0
     \<and> restore (snd (restore_begin s opts)) opts' saved' =
         (Inl AlreadyRestored, snd (restore_begin s opts))
     \<and> (\<exists>outs. fst (restore s opts saved) = Inr outs)
     \<and> restored (snd (restore s opts saved)) = 1
     \<and> restore_calls (snd (restore s opts saved)) cs =
         (map (\<lambda>c. Inl AlreadyRestored) cs, snd (restore s opts saved))"
proof -
  define s1 where "s1 = snd (restore_begin s opts)"
  have b: "fst (restore_begin s opts) = Suspended" "hasRestored s1" "restored s1 = 0"
    using assms by (simp_all add: s1_def restore_begin_first)
  have again: "restore s1 opts' saved' = (Inl AlreadyRestored, s1)"
    using b(2) by (rule restore_again)
  obtain d c e where fr: "snd (restore_resume s1 opts saved)
      = s1\<lparr>restored := restored s1 + 1, db := d, db_calls := c, executed := e\<rparr>"
    using restore_resume_frame by blast
  have st: "snd (restore s opts saved) = snd (restore_resume s1 opts saved)"
    and res: "\<exists>outs. fst (restore s opts saved) = Inr outs"
    using assms(1) by (simp_all add: restore_first s1_def)
  have n: "restored (snd (restore s opts saved)) = 1"
    and h: "hasRestored (snd (restore s opts saved))"
    using fr b by (simp_all add: st)
  have later: "restore_calls (snd (restore s opts saved)) cs =
         (map (\<lambda>c. Inl AlreadyRestored) cs, snd (restore s opts saved))"
    using h by (rule restore_calls_after)
  from b again res n later show ?thesis unfolding s1_def by blast
qed

theorem restore_once_witness:
  "\<not> hasRestored tracker_db \<and> restored tracker_db = 0
   \<and> hasRestored (snd (restore_begin tracker_db opts0))
   \<and> restore (snd (restore_begin tracker_db opts0)) opts0 saved0 =
       (Inl AlreadyRestored, snd (restore_begin tracker_db opts0))
   \<and> restored (snd (restore tracker_db opts0 saved0)) = 1
   \<and> restore_calls (snd (restore tracker_db opts0 saved0)) [(opts0, saved0), (opts0, ([], []))] =
       ([Inl AlreadyRestored, Inl AlreadyRestored], snd (restore tracker_db opts0 saved0))
   \<and> restored (snd (restore_calls (snd (restore tracker_db opts0 saved0))
                      [(opts0, saved0), (opts0, ([], []))])) = 1"
  using restore_once [of tracker_db opts0 opts0 saved0 saved0 "[(opts0, saved0), (opts0, ([], []))]"]
  by (simp add: tracker_db_def tracker0_def)

text \<open>
  Claim C10, as stated, fails where the command rejects \<^verbatim>\<open>null\<close>: the record whose
  \<^verbatim>\<open>data\<close> is \<^verbatim>\<open>null\<close> is replayed with \<^verbatim>\<open>null\<close>, the \<^verbatim>\<open>catch\<close> handler runs, and the
  record is gone from the database after \<^verbatim>\<open>restore\<close>.
\<close>

theorem null_data_rejected_is_removed:
  "value_at (snd saved0) 2 = Some (JObj [(''data'', JNull)])
   \<and> fst saved0 ! 2 = ''nb:null''
   \<and> db tracker_db ''nb:null'' = Some (JObj [(''data'', JNull)])
   \<and> registry opts0 (command opts0) JNull = Inl ''no arguments''
   \<and> executed (snd (restore tracker_db opts0 saved0))
       = [(''open'', JObj [(''path'', JStr ''a.txt'')]), (''open'', JNull)]
   \<and> db (snd (restore tracker_db opts0 saved0)) ''nb:null'' = None"
proof -
  have fresh: "\<not> hasRestored tracker_db"
    by (simp add: tracker_db_def tracker0_def)
  have keys: "distinct (fst saved0)" "(2::nat) < length (fst saved0)"
    by (simp_all add: saved0_def)
  have gone: "db (snd (restore tracker_db opts0 saved0)) ''nb:null'' = None"
    using restore_first_db [OF fresh keys, of opts0]
    by (simp add: saved0_def value_at_def cleaned_def opts0_def)
  have calls: "executed (snd (restore tracker_db opts0 saved0))
       = [(''open'', JObj [(''path'', JStr ''a.txt'')]), (''open'', JNull)]"
    using restore_first_executed [OF fresh, of opts0 saved0]
    by (simp add: tracker_db_def tracker0_def saved0_def opts0_def value_at_def
          List.map_filter_simps upt_rec [of 0] upt_rec [of 1] upt_rec [of 2])
  show ?thesis
    using gone calls
    by (simp add: tracker_db_def tracker0_def saved0_def opts0_def value_at_def)
qed

text \<open>
  Claim C10, amended. A listed value that is \<^verbatim>\<open>null\<close>, or an object whose \<^verbatim>\<open>data\<close> is
  \<^verbatim>\<open>null\<close>, yields the arguments \<^verbatim>\<open>null\<close>, which is not \<^verbatim>\<open>undefined\<close>: the mapped
  function does not take the orphan branch. It makes no database call for the record and
  executes the command with \<^verbatim>\<open>null\<close>. The record is then treated as every replayed
  record is: it stays in the database when the execution succeeds and is removed only when
  the execution rejects.
\<close>

theorem null_data_is_replayed:
  assumes "\<not> hasRestored s" and "distinct (fst saved)" and "i < length (fst saved)"
    and "value_at (snd saved) i = Some JNull
         \<or> (\<exists>kvs. value_at (snd saved) i = Some (JObj kvs) \<and> map_of kvs ''data'' = Some JNull)"
  shows "args_of_value (value_at (snd saved) i) = Some JNull
     \<and> replay opts s (fst saved ! i, value_at (snd saved) i) =
         (Executing (registry opts (command opts) JNull),
          s\<lparr>executed := executed s @ [(command opts, JNull)]\<rparr>)
     \<and> (command opts, JNull) \<in> set (executed (snd (restore s opts saved)))
     \<and> db (snd (restore s opts saved)) (fst saved ! i) =
         (case registry opts (command opts) JNull of
            Inl e \<Rightarrow> None
          | Inr v \<Rightarrow> db s (fst saved ! i))"
proof -
  have a: "args_of_value (value_at (snd saved) i) = Some JNull"
    using assms(4) by auto
  have r: "replay opts s (fst saved ! i, value_at (snd saved) i) =
         (Executing (registry opts (command opts) JNull),
          s\<lparr>executed := executed s @ [(command opts, JNull)]\<rparr>)"
    by (simp add: replay_def a)
  have "value_at (snd saved) i \<in> set (map (value_at (snd saved)) [0..<length (fst saved)])"
    using assms(3) by simp
  then have "JNull \<in> set (List.map_filter args_of_value (map (value_at (snd saved)) [0..<length (fst saved)]))"
    using a unfolding List.map_filter_def by force
  then have e: "(command opts, JNull) \<in> set (executed (snd (restore s opts saved)))"
    by (simp add: restore_first_executed [OF assms(1)])
  have d: "db (snd (restore s opts saved)) (fst saved ! i) =
         (case registry opts (command opts) JNull of
            Inl e \<Rightarrow> None
          | Inr v \<Rightarrow> db s (fst saved ! i))"
    unfolding restore_first_db [OF assms(1-3)]
    by (simp add: cleaned_def a split: sum.splits)
  from a r e d show ?thesis by blast
qed

theorem null_data_is_replayed_witness:
  "\<not> hasRestored tracker_db \<and> distinct (fst saved0) \<and> (2::nat) < length (fst saved0)
   \<and> value_at (snd saved0) 2 = Some (JObj [(''data'', JNull)])
   \<and> args_of_value (value_at (snd saved0) 2) = Some JNull
   \<and> (''open'', JNull) \<in> set (executed (snd (restore tracker_db opts0 saved0)))
   \<and> db (snd (restore tracker_db opts0 saved0)) ''nb:null'' = None
   \<and> db (snd (restore tracker_db (opts0\<lparr>registry := (\<lambda>c a. Inr None)\<rparr>) saved0)) ''nb:null''
       = Some (JObj [(''data'', JNull)])"
  using null_data_is_replayed [of tracker_db saved0 2 opts0]
    null_data_is_replayed [of tracker_db saved0 2 "opts0\<lparr>registry := (\<lambda>c a. Inr None)\<rparr>"]
  by (simp add: tracker_db_def tracker0_def saved0_def opts0_def value_at_def)

subsection \<open>When the effects of add become visible\<close>

text \<open>
  Claim C5 holds of \<^verbatim>\<open>WidgetTracker.add\<close> and not of \<^verbatim>\<open>InstanceTracker.add\<close>. In the
  first, the insertion, the update of the current widget and both signals happen before the
  method returns the promise of the database write, as its documentation says. In the
  second, with restore options installed and a named object, only the insertion and the
  database call happen before the \<^verbatim>\<open>await\<close>: while the write is pending the current
  pointer is still \<^verbatim>\<open>null\<close> and nothing has been emitted; the pointer is set and the signals
  are emitted by the continuation, after the write has landed.
\<close>

theorem add_defers_current:
  "\<not> isDisposed tracker_r 1 \<and> \<not> has tracker_r 1 \<and> current tracker_r = None
   \<and> fst (add_begin tracker_r 1) = Suspended
   \<and> has (snd (add_begin tracker_r 1)) 1
   \<and> db_calls (snd (add_begin tracker_r 1))
       = [DbSave ''nb:doc1'' (JObj [(''data'', JObj [(''path'', JStr ''a.txt'')])])]
   \<and> current (snd (add_begin tracker_r 1)) = None
   \<and> emitted (snd (add_begin tracker_r 1)) = []
   \<and> current (snd (add tracker_r 1)) = Some 1
   \<and> emitted (snd (add tracker_r 1)) = [CurrentChanged (Some 1), Added 1]
   \<and> fst (w_add widgets_r 1) = Suspended
   \<and> w_has (snd (w_add widgets_r 1)) 1
   \<and> currentWidget (snd (w_add widgets_r 1)) = Some 1
   \<and> emitted (snd (w_add widgets_r 1)) = [CurrentChanged (Some 1), Added 1]"
  by (simp add: tracker_r_def widgets_r_def tracker0_def widgets0_def opts0_def add_def add_begin_def
        add_tail_def set_current_def w_add_def has_def w_has_def db_save_def emit_def Let_def)

subsection \<open>Injected items\<close>

text \<open>
  Claim C6, as stated, fails: injecting an object into a new tracker inserts it and emits
  nothing, in both classes, so the added signal does not fire for an injected item.
\<close>

theorem inject_fires_no_added:
  "\<not> isDisposed tracker0 1 \<and> \<not> has tracker0 1
   \<and> fst (inject tracker0 1) = Returned
   \<and> has (snd (inject tracker0 1)) 1
   \<and> emitted (snd (inject tracker0 1)) = []
   \<and> \<not> isDisposed widgets0 1 \<and> \<not> w_has widgets0 1
   \<and> w_has (w_inject widgets0 1) 1
   \<and> emitted (w_inject widgets0 1) = []"
  by (simp add: tracker0_def widgets0_def inject_def w_inject_def add_def add_begin_def
        w_add_def has_def w_has_def Let_def)

text \<open>
  Claim C6, amended. Injecting an object that is neither disposed nor tracked inserts it
  into the tracked set and marks it injected, and does nothing else: no signal is emitted
  (neither added nor currentChanged), the current pointer stays, no database call is made
  and no name is recorded. A later \<^verbatim>\<open>save\<close> of the item does nothing, and the disposal
  slot, run for the item, makes no database call and emits nothing.
\<close>

theorem inject_exemptions:
  "(\<not> isDisposed s obj \<and> \<not> has s obj \<longrightarrow>
      fst (inject s obj) = Returned
      \<and> has (snd (inject s obj)) obj
      \<and> tracker_size (snd (inject s obj)) = tracker_size s + 1
      \<and> injectedProperty (snd (inject s obj)) obj
      \<and> emitted (snd (inject s obj)) = emitted s
      \<and> current (snd (inject s obj)) = current s
      \<and> db_calls (snd (inject s obj)) = db_calls s
      \<and> db (snd (inject s obj)) = db s
      \<and> nameProperty (snd (inject s obj)) = nameProperty s
      \<and> save (snd (inject s obj)) obj = snd (inject s obj)
      \<and> db_calls (onInstanceDisposed (snd (inject s obj)) obj) = db_calls s
      \<and> emitted (onInstanceDisposed (snd (inject s obj)) obj) = emitted s)
   \<and> (\<not> isDisposed t w \<and> \<not> w_has t w \<longrightarrow>
      w_has (w_inject t w) w
      \<and> w_size (w_inject t w) = w_size t + 1
      \<and> injectedProperty (w_inject t w) w
      \<and> emitted (w_inject t w) = emitted t
      \<and> currentWidget (w_inject t w) = currentWidget t
      \<and> db_calls (w_inject t w) = db_calls t
      \<and> db (w_inject t w) = db t
      \<and> nameProperty (w_inject t w) = nameProperty t
      \<and> w_save (w_inject t w) w = w_inject t w
      \<and> w_onWidgetDisposed (w_inject t w) w = w_inject t w)"
proof (rule conjI; rule impI)
  assume h: "\<not> isDisposed s obj \<and> \<not> has s obj"
  then have eq: "inject s obj =
      (Returned, s\<lparr>injectedProperty := (injectedProperty s)(obj := True),
                    instances := instances s @ [obj]\<rparr>)"
    by (simp add: inject_def add_def add_begin_def has_def Let_def)
  show "fst (inject s obj) = Returned
      \<and> has (snd (inject s obj)) obj
      \<and> tracker_size (snd (inject s obj)) = tracker_size s + 1
      \<and> injectedProperty (snd (inject s obj)) obj
      \<and> emitted (snd (inject s obj)) = emitted s
      \<and> current (snd (inject s obj)) = current s
      \<and> db_calls (snd (inject s obj)) = db_calls s
      \<and> db (snd (inject s obj)) = db s
      \<and> nameProperty (snd (inject s obj)) = nameProperty s
      \<and> save (snd (inject s obj)) obj = snd (inject s obj)
      \<and> db_calls (onInstanceDisposed (snd (inject s obj)) obj) = db_calls s
      \<and> emitted (onInstanceDisposed (snd (inject s obj)) obj) = emitted s"
    unfolding eq
    by (simp add: has_def tracker_size_def save_def onInstanceDisposed_def Let_def split: option.splits)
next
  assume h: "\<not> isDisposed t w \<and> \<not> w_has t w"
  then have eq: "w_inject t w =
      t\<lparr>injectedProperty := (injectedProperty t)(w := True),
        tracker_widgets := tracker_widgets t @ [w], widgets := widgets t @ [w]\<rparr>"
    by (simp add: w_inject_def w_add_def w_has_def Let_def)
  show "w_has (w_inject t w) w
      \<and> w_size (w_inject t w) = w_size t + 1
      \<and> injectedProperty (w_inject t w) w
      \<and> emitted (w_inject t w) = emitted t
      \<and> currentWidget (w_inject t w) = currentWidget t
      \<and> db_calls (w_inject t w) = db_calls t
      \<and> db (w_inject t w) = db t
      \<and> nameProperty (w_inject t w) = nameProperty t
      \<and> w_save (w_inject t w) w = w_inject t w
      \<and> w_onWidgetDisposed (w_inject t w) w = w_inject t w"
    unfolding eq
    by (simp add: w_has_def w_size_def w_save_def w_onWidgetDisposed_def split: option.splits)
qed

theorem inject_exemptions_witness:
  "\<not> isDisposed tracker_r 1 \<and> \<not> has tracker_r 1
   \<and> has (snd (inject tracker_r 1)) 1
   \<and> emitted (snd (inject tracker_r 1)) = []
   \<and> db_calls (snd (inject tracker_r 1)) = []
   \<and> save (snd (inject tracker_r 1)) 1 = snd (inject tracker_r 1)
   \<and> \<not> isDisposed widgets_r 1 \<and> \<not> w_has widgets_r 1
   \<and> w_has (w_inject widgets_r 1) 1
   \<and> emitted (w_inject widgets_r 1) = []
   \<and> db_calls (w_inject widgets_r 1) = []
   \<and> w_save (w_inject widgets_r 1) 1 = w_inject widgets_r 1"
  using inject_exemptions [of tracker_r 1 widgets_r 1]
  by (simp add: tracker_r_def widgets_r_def tracker0_def widgets0_def has_def w_has_def)

text \<open>
  \<^verbatim>\<open>InstanceTracker.add\<close> returns for an injected object before it connects the slot to
  the object's \<^verbatim>\<open>disposed\<close> signal, so disposing the object leaves it in \<^verbatim>\<open>_instances\<close>.
\<close>

lemma injected_stays_tracked:
  "has (dispose_obj (snd (inject tracker0 1)) 1) 1"
  by (simp add: tracker0_def inject_def add_def add_begin_def dispose_obj_def has_def Let_def)

subsection \<open>The current pointer after add\<close>




subsection \<open>The current pointer is tracked\<close>

text \<open>
  The segments compose to the methods: \<^verbatim>\<open>save\<close> is its parts in sequence, \<^verbatim>\<open>inject\<close> never
  suspends, and the continuation of \<^verbatim>\<open>restore\<close> is the replay, the \<^verbatim>\<open>catch\<close> handlers and
  the resolution.
\<close>

lemma save_in_parts: "save s obj = save_parts s obj"
  by (simp add: save_def save_parts_def save_begin_def save_named_def save_done_def
        db_save_def db_remove_def emit_def Let_def split: option.splits)

lemma inject_is_one_segment:
  "inject s obj = add_begin (s\<lparr>injectedProperty := (injectedProperty s)(obj := True)\<rparr>) obj
   \<and> fst (inject s obj) \<noteq> Suspended"
  by (simp add: inject_def add_def add_begin_def Let_def)

lemma restore_resume_in_parts:
  "snd (restore_resume s opts saved) =
     step (settle (step s (RestoreReplay opts saved))
             (zip (map fst (saved_records saved)) (fst (replay_all opts s (saved_records saved)))))
          RestoreResolve"
  by (simp add: restore_resume_def Let_def split_beta)

lemma fresh_inv: "fresh s \<Longrightarrow> current_ok s \<and> connected_inv s {}"
  by (simp add: fresh_def current_ok_def connected_inv_def)

lemma add_begin_inv:
  assumes "current_ok s" "connected_inv s P"
  shows "current_ok (snd (add_begin s x))
     \<and> connected_inv (snd (add_begin s x)) (if fst (add_begin s x) = Suspended then insert x P else P)"
  using assms
  by (auto simp: add_begin_def add_tail_def set_current_def emit_def db_save_def Let_def
        current_ok_def connected_inv_def has_def split: option.splits)

lemma add_resume_inv:
  assumes "current_ok s" "connected_inv s P" "x \<in> P"
  shows "current_ok (add_tail s x) \<and> connected_inv (add_tail s x) (P - {x})"
  using assms
  by (auto simp: add_tail_def set_current_def emit_def Let_def
        current_ok_def connected_inv_def has_def split: option.splits)

lemma inject_inv:
  assumes "current_ok s" "connected_inv s P" "\<not> has s x"
  shows "current_ok (snd (inject s x)) \<and> connected_inv (snd (inject s x)) P"
  using assms
  by (auto simp: inject_def add_def add_begin_def Let_def
        current_ok_def connected_inv_def has_def split: option.splits)

lemma inject_elsewhere_inv:
  assumes "current_ok s" "connected_inv s P" "\<not> has s x"
  shows "current_ok (s\<lparr>injectedProperty := (injectedProperty s)(x := True)\<rparr>)
     \<and> connected_inv (s\<lparr>injectedProperty := (injectedProperty s)(x := True)\<rparr>) P"
  using assms
  by (auto simp: current_ok_def connected_inv_def has_def split: option.splits)

lemma frame_inv:
  assumes "current_ok s" "connected_inv s P"
    and "instances s' = instances s" "current s' = current s" "slots s' = slots s"
    and "isDisposed s' = isDisposed s" "injectedProperty s' = injectedProperty s"
  shows "current_ok s' \<and> connected_inv s' P"
  using assms by (auto simp: current_ok_def connected_inv_def has_def split: option.splits)

lemma save_begin_frame:
  "instances (snd (save_begin s x)) = instances s \<and> current (snd (save_begin s x)) = current s
   \<and> slots (snd (save_begin s x)) = slots s \<and> isDisposed (snd (save_begin s x)) = isDisposed s
   \<and> injectedProperty (snd (save_begin s x)) = injectedProperty s"
  by (simp add: save_begin_def save_named_def save_done_def db_save_def db_remove_def emit_def Let_def
        split: option.splits)

lemma save_named_frame:
  "instances (snd (save_named s x a b)) = instances s \<and> current (snd (save_named s x a b)) = current s
   \<and> slots (snd (save_named s x a b)) = slots s \<and> isDisposed (snd (save_named s x a b)) = isDisposed s
   \<and> injectedProperty (snd (save_named s x a b)) = injectedProperty s"
  by (simp add: save_named_def save_done_def db_save_def emit_def Let_def split: option.splits)

lemma save_done_frame:
  "instances (save_done s x a b) = instances s \<and> current (save_done s x a b) = current s
   \<and> slots (save_done s x a b) = slots s \<and> isDisposed (save_done s x a b) = isDisposed s
   \<and> injectedProperty (save_done s x a b) = injectedProperty s"
  by (simp add: save_done_def emit_def)

lemma restore_begin_frame:
  "instances (snd (restore_begin s opts)) = instances s \<and> current (snd (restore_begin s opts)) = current s
   \<and> slots (snd (restore_begin s opts)) = slots s \<and> isDisposed (snd (restore_begin s opts)) = isDisposed s
   \<and> injectedProperty (snd (restore_begin s opts)) = injectedProperty s"
  by (simp add: restore_begin_def Let_def)

lemma replay_all_tracker_frame:
  fixes s :: instance_tracker
  shows "instances (snd (replay_all opts s rs)) = instances s \<and> current (snd (replay_all opts s rs)) = current s
   \<and> slots (snd (replay_all opts s rs)) = slots s \<and> isDisposed (snd (replay_all opts s rs)) = isDisposed s
   \<and> injectedProperty (snd (replay_all opts s rs)) = injectedProperty s"
proof -
  obtain d c e where "snd (replay_all opts s rs) = s\<lparr>db := d, db_calls := c, executed := e\<rparr>"
    using replay_all_frame by blast
  then show ?thesis by simp
qed

lemma dispose_inv:
  assumes "current_ok s" "connected_inv s P" "x \<notin> P"
  shows "current_ok (dispose_obj s x) \<and> connected_inv (dispose_obj s x) P"
  using assms
  by (auto simp: dispose_obj_def onInstanceDisposed_def emit_def db_remove_def Let_def
        current_ok_def connected_inv_def has_def split: option.splits)

lemma set_current_inv:
  assumes "current_ok s" "connected_inv s P" "has s x"
  shows "current_ok (set_current s x) \<and> connected_inv (set_current s x) P"
  using assms
  by (auto simp: set_current_def emit_def current_ok_def connected_inv_def has_def)

lemma frame_step:
  assumes "current_ok s" "connected_inv s P"
    and "instances s' = instances s \<and> current s' = current s \<and> slots s' = slots s
         \<and> isDisposed s' = isDisposed s \<and> injectedProperty s' = injectedProperty s"
  shows "current_ok s' \<and> connected_inv s' P"
  using assms frame_inv [of s P s'] by simp

lemma step_inv:
  assumes "current_ok s \<and> connected_inv s P" "allowed s P g"
  shows "current_ok (step s g) \<and> connected_inv (step s g) (pending_after s P g)"
proof -
  have c: "current_ok s" and i: "connected_inv s P" using assms(1) by simp_all
  show ?thesis
  proof (cases g)
    case (AddBegin x)
    then show ?thesis using add_begin_inv [OF c i, of x] by simp
  next
    case (AddResume x)
    then have "x \<in> P" using assms(2) by simp
    then show ?thesis using add_resume_inv [OF c i] AddResume by simp
  next
    case (Inject x)
    then have "\<not> has s x" using assms(2) by simp
    then show ?thesis using inject_inv [OF c i] Inject by simp
  next
    case (SaveBegin x)
    then show ?thesis using frame_step [OF c i save_begin_frame] by simp
  next
    case (SaveNamed x a b)
    then show ?thesis using frame_step [OF c i save_named_frame] by simp
  next
    case (SaveDone x a b)
    then show ?thesis using frame_step [OF c i save_done_frame] by simp
  next
    case (RestoreBegin opts)
    then show ?thesis using frame_step [OF c i restore_begin_frame] by simp
  next
    case (RestoreReplay opts saved)
    then show ?thesis using frame_step [OF c i replay_all_tracker_frame] by simp
  next
    case (RestoreCatch key)
    then show ?thesis using frame_step [OF c i, of "db_remove s key"] by (simp add: db_remove_def)
  next
    case RestoreResolve
    then show ?thesis using frame_step [OF c i, of "s\<lparr>restored := restored s + 1\<rparr>"] by simp
  next
    case (Dispose x)
    then have "x \<notin> P" using assms(2) by simp
    then show ?thesis using dispose_inv [OF c i] Dispose by simp
  next
    case (SetCurrent x)
    then have "has s x" using assms(2) by simp
    then show ?thesis using set_current_inv [OF c i] SetCurrent by simp
  next
    case (InjectElsewhere x)
    then have "\<not> has s x" using assms(2) by simp
    then show ?thesis using inject_elsewhere_inv [OF c i] InjectElsewhere by simp
  next
    case (NameElsewhere x n)
    then show ?thesis
      using frame_step [OF c i, of "s\<lparr>nameProperty := (nameProperty s)(x := n)\<rparr>"] by simp
  qed
qed

lemma run_inv:
  "current_ok s \<and> connected_inv s P \<Longrightarrow> admissible s P gs \<Longrightarrow> current_ok (run s gs)"
proof (induction gs arbitrary: s P)
  case Nil
  then show ?case by (simp add: run_def)
next
  case (Cons g gs)
  have "allowed s P g" using Cons.prems(2) by simp
  with Cons.prems(1) have "current_ok (step s g) \<and> connected_inv (step s g) (pending_after s P g)"
    by (rule step_inv)
  moreover have "admissible (step s g) (pending_after s P g) gs" using Cons.prems by simp
  ultimately have "current_ok (run (step s g) gs)" by (rule Cons.IH)
  then show ?case by (simp add: run_def)
qed

lemma admissible_take: "admissible s P gs \<Longrightarrow> admissible s P (take k gs)"
proof (induction gs arbitrary: s P k)
  case Nil
  then show ?case by simp
next
  case (Cons g gs)
  then show ?case by (cases k) simp_all
qed

text \<open>
  Claim C4, as stated, fails on a new \<^verbatim>\<open>InstanceTracker\<close> in four ways. The setter stores
  any object, tracked or not. An object that is added, then passed to \<^verbatim>\<open>inject\<close> (which
  marks it injected before \<^verbatim>\<open>add\<close> rejects it), then disposed, is removed from the set
  while it stays current; the same happens when another tracker's \<^verbatim>\<open>inject\<close> marks it. And
  with restore options installed, an object disposed while its \<^verbatim>\<open>add\<close> is suspended at
  the \<^verbatim>\<open>await\<close> is removed from the set, and the continuation then makes it current.
\<close>

theorem current_not_tracked:
  "fresh tracker0
   \<and> current (run tracker0 [SetCurrent 7]) = Some 7
   \<and> \<not> has (run tracker0 [SetCurrent 7]) 7
   \<and> current (run tracker0 [AddBegin 1, Inject 1, Dispose 1]) = Some 1
   \<and> \<not> has (run tracker0 [AddBegin 1, Inject 1, Dispose 1]) 1
   \<and> current (run tracker0 [AddBegin 1, InjectElsewhere 1, Dispose 1]) = Some 1
   \<and> \<not> has (run tracker0 [AddBegin 1, InjectElsewhere 1, Dispose 1]) 1
   \<and> fst (add_begin (run tracker0 [RestoreBegin opts0]) 1) = Suspended
   \<and> current (run tracker0 [RestoreBegin opts0, AddBegin 1, Dispose 1]) = None
   \<and> current (run tracker0 [RestoreBegin opts0, AddBegin 1, Dispose 1, AddResume 1]) = Some 1
   \<and> \<not> has (run tracker0 [RestoreBegin opts0, AddBegin 1, Dispose 1, AddResume 1]) 1"
  by (simp add: tracker0_def opts0_def fresh_def run_def set_current_def inject_def add_def
        add_begin_def add_tail_def dispose_obj_def onInstanceDisposed_def restore_begin_def has_def
        emit_def db_save_def db_remove_def Let_def)

text \<open>
  Claim C4, amended. On a new \<^verbatim>\<open>InstanceTracker\<close>, at every synchronous boundary of
  every interleaving of \<^verbatim>\<open>add\<close>, \<^verbatim>\<open>inject\<close>, \<^verbatim>\<open>save\<close>, \<^verbatim>\<open>restore\<close>, object disposals and
  writes to the setter, the current pointer is \<^verbatim>\<open>null\<close> or a tracked item, provided the
  setter is only written with tracked items, no object is marked injected (by \<^verbatim>\<open>inject\<close>
  on this or on another tracker) while it is tracked here, and no object is disposed
  while an \<^verbatim>\<open>add\<close> of it is suspended.
\<close>

theorem current_is_tracked:
  assumes "fresh s" and "admissible s {} gs"
  shows "current_ok (run s (take k gs))"
  using run_inv [OF fresh_inv [OF assms(1)] admissible_take [OF assms(2)]] .

theorem current_is_tracked_witness:
  "fresh tracker0
   \<and> admissible tracker0 {}
        [RestoreBegin opts0, AddBegin 1, Inject 2, SetCurrent 2, AddBegin 3, AddResume 1,
         RestoreReplay opts0 saved0, SaveBegin 3, Dispose 1, AddResume 3, InjectElsewhere 5,
         RestoreCatch ''nb:null'', RestoreResolve, Dispose 2, Dispose 3]
   \<and> current_ok (run tracker0 (take 15
        [RestoreBegin opts0, AddBegin 1, Inject 2, SetCurrent 2, AddBegin 3, AddResume 1,
         RestoreReplay opts0 saved0, SaveBegin 3, Dispose 1, AddResume 3, InjectElsewhere 5,
         RestoreCatch ''nb:null'', RestoreResolve, Dispose 2, Dispose 3]))"
  using current_is_tracked [of tracker0
        "[RestoreBegin opts0, AddBegin 1, Inject 2, SetCurrent 2, AddBegin 3, AddResume 1,
         RestoreReplay opts0 saved0, SaveBegin 3, Dispose 1, AddResume 3, InjectElsewhere 5,
         RestoreCatch ''nb:null'', RestoreResolve, Dispose 2, Dispose 3]" 15]
  by (simp add: tracker0_def opts0_def fresh_def run_def set_current_def inject_def add_def
        add_begin_def add_tail_def dispose_obj_def onInstanceDisposed_def restore_begin_def has_def
        emit_def db_save_def db_remove_def Let_def save_begin_def save_named_def saved0_def saved_records_def value_at_def
        replay_def split_beta upt_rec [of 0] upt_rec [of 1] upt_rec [of 2])

end
